theory Spec2Isabelle
  imports Main
begin

section \<open>better-chess.js: the analysis engine of src/utils.ts\<close>

text \<open>
  The analysis module queries a rules engine (the chess.js class \<open>Chess\<close>) and never
  reimplements chess rules. The rules engine is not part of the repository, so it is a
  parameter of every definition below: \<open>newChess\<close> stands for the constructor
  \<^verbatim>\<open>new Chess(fen)\<close>, which either throws on a position string it rejects
  (\<open>None\<close>) or yields an object whose methods are the fields of the record \<open>Chess\<close>.
  Strings are lists of 8-bit code units; position strings and square names are ASCII.
\<close>

subsection \<open>Data model\<close>

datatype Color = White | Black

datatype PieceSymbol = Pawn | Knight | Bishop | Rook | Queen | King

text \<open>What \<^verbatim>\<open>chess.get(square)\<close> returns for an occupied square.\<close>

record Piece =
  color :: Color
  type :: PieceSymbol

text \<open>The type \<^verbatim>\<open>PieceInEffect\<close> of types.ts.\<close>

datatype PieceInEffect = PieceInEffect (at: string) (name: PieceSymbol) (color: Color)
  (attackers: "PieceInEffect list") (defenders: "PieceInEffect list")

text \<open>The fields of a verbose chess.js move that the module reads.\<close>

record Move =
  to :: string
  flags :: string
  san :: string
  captured :: "PieceSymbol option"
  promotion :: "PieceSymbol option"
  before :: string
  after :: string

text \<open>
  A loaded position. \<open>get\<close> is \<^verbatim>\<open>chess.get\<close>, \<open>attackersOf\<close> is
  \<^verbatim>\<open>chess.attackers(square, color)\<close>, \<open>moves\<close> is
  \<^verbatim>\<open>chess.moves({verbose: true})\<close>, \<open>movesOf\<close> is
  \<^verbatim>\<open>chess.moves({square, verbose: true})\<close>, \<open>moveThenFen m\<close> is the value of
  \<^verbatim>\<open>c.fen()\<close> after \<^verbatim>\<open>c.move(m)\<close> on a fresh copy (\<open>None\<close> when the move
  returns a falsy result), \<open>fen\<close> is \<^verbatim>\<open>chess.fen()\<close>. \<open>hasIsStalemate\<close> says
  whether the object has a method \<^verbatim>\<open>isStalemate\<close>; the remaining fields are the
  results of the methods of the same names.
\<close>

record Chess =
  get :: "string \<Rightarrow> Piece option"
  attackersOf :: "string \<Rightarrow> Color \<Rightarrow> string list"
  moves :: "Move list"
  movesOf :: "string \<Rightarrow> Move list"
  moveThenFen :: "Move \<Rightarrow> string option"
  fen :: string
  hasIsStalemate :: bool
  isStalemate :: bool
  isGameOver :: bool
  isCheckmate :: bool
  isDraw :: bool
  inCheck :: bool

datatype error = InvalidFen | TypeError

datatype MoveType = Promotion | Capture | Check | Checkmate | Stalemate | EnPassant
  | Castling | Normal | Attacking | Fianchetto

datatype DefenseStatus = Defended | Overdefended | Undefended | Underdefended

datatype Tactic = Fork | Pin | Skewer | DoubleCheck | Trap

record TacticalMove =
  tactic' :: Tactic
  targets :: "PieceInEffect list"

text \<open>
  The type \<^verbatim>\<open>MoveEffect\<close> of types.ts. \<open>hangingPieces\<close> is indexed by the colour, as
  \<^verbatim>\<open>hangingPieces[p.color]\<close> is.
\<close>

record MoveEffect =
  piece :: PieceInEffect
  capturedPiece :: "PieceInEffect option"
  tactics :: "TacticalMove list"
  attacks :: "PieceInEffect list"
  defends :: "PieceInEffect list"
  type :: MoveType
  defense :: DefenseStatus
  hangingPieces :: "Color \<Rightarrow> PieceInEffect list"

subsection \<open>buildPieceInEffect (utils.ts, lines 41-71)\<close>

text \<open>
  The \<^verbatim>\<open>for\<close> loop over \<^verbatim>\<open>[...whiteReachable, ...blackReachable]\<close> is
  \<open>buildLoop\<close>; it carries the two lists the loop pushes to. The recursive call is made
  only when \<open>depth > 0\<close>, and always with depth 0.
\<close>

function buildPieceInEffect ::
    "(string \<Rightarrow> Chess option) \<Rightarrow> string \<Rightarrow> string \<Rightarrow> nat \<Rightarrow> error + PieceInEffect option"
  and buildLoop ::
    "(string \<Rightarrow> Chess option) \<Rightarrow> string \<Rightarrow> nat \<Rightarrow> Chess \<Rightarrow> Color \<Rightarrow> string list
      \<Rightarrow> PieceInEffect list \<Rightarrow> PieceInEffect list
      \<Rightarrow> error + (PieceInEffect list \<times> PieceInEffect list)"
where
  "buildPieceInEffect newChess square fen' depth =
     (case newChess fen' of
        None \<Rightarrow> Inl InvalidFen
      | Some chess \<Rightarrow>
          (case get chess square of
             None \<Rightarrow> Inr None
           | Some piece' \<Rightarrow>
               (case buildLoop newChess fen' depth chess (Piece.color piece')
                       (attackersOf chess square White @ attackersOf chess square Black) [] [] of
                  Inl e \<Rightarrow> Inl e
                | Inr (attackers', defenders') \<Rightarrow>
                    Inr (Some (PieceInEffect square (Piece.type piece') (Piece.color piece')
                                 attackers' defenders')))))"
| "buildLoop newChess fen' depth chess color' [] attackers' defenders' =
     Inr (attackers', defenders')"
| "buildLoop newChess fen' depth chess color' (from' # rest) attackers' defenders' =
     (case get chess from' of
        None \<Rightarrow> buildLoop newChess fen' depth chess color' rest attackers' defenders'
      | Some p \<Rightarrow>
          (case (if depth > 0 then buildPieceInEffect newChess from' fen' 0 else Inr None) of
             Inl e \<Rightarrow> Inl e
           | Inr None \<Rightarrow> buildLoop newChess fen' depth chess color' rest attackers' defenders'
           | Inr (Some sub) \<Rightarrow>
               (if Piece.color p = color'
                then buildLoop newChess fen' depth chess color' rest attackers' (defenders' @ [sub])
                else buildLoop newChess fen' depth chess color' rest (attackers' @ [sub]) defenders')))"
  by pat_completeness auto
termination
  by (relation "measures [
        (\<lambda>x. case x of Inl (_, _, _, d) \<Rightarrow> d | Inr (_, _, d, _) \<Rightarrow> d),
        (\<lambda>x. case x of Inl _ \<Rightarrow> 1 | Inr _ \<Rightarrow> 0),
        (\<lambda>x. case x of Inl _ \<Rightarrow> 0 | Inr (_, _, _, _, _, xs, _) \<Rightarrow> length xs)]") auto

subsection \<open>Strings and numbers of the host language\<close>

text \<open>
  \<^verbatim>\<open>s.charCodeAt(0)\<close> and \<^verbatim>\<open>parseInt(s[1])\<close>; \<open>None\<close> stands for \<^verbatim>\<open>NaN\<close>
  (an empty string, a missing or non-digit character). \<open>numStr\<close> is the decimal string
  of an integer, as string concatenation and template literals produce it.
\<close>

definition charCodeAt0 :: "string \<Rightarrow> int option" where
  "charCodeAt0 s = (case s of [] \<Rightarrow> None | c # _ \<Rightarrow> Some (of_char c))"

definition digitOf :: "char \<Rightarrow> int option" where
  "digitOf c = (if (48::int) \<le> of_char c \<and> of_char c \<le> (57::int) then Some (of_char c - 48) else None)"

definition parseIntAt1 :: "string \<Rightarrow> int option" where
  "parseIntAt1 s = (case s of _ # c # _ \<Rightarrow> digitOf c | _ \<Rightarrow> None)"

fun natStr :: "nat \<Rightarrow> string" where
  "natStr n = (if n < 10 then [char_of (48 + int n)]
               else natStr (n div 10) @ [char_of (48 + int (n mod 10))])"

definition numStr :: "int \<Rightarrow> string" where
  "numStr n = (if n < 0 then CHR ''-'' # natStr (nat (- n)) else natStr (nat n))"

subsection \<open>_getPiecesAlongRay (utils.ts, lines 81-102)\<close>

text \<open>
  The \<^verbatim>\<open>while\<close> loop, with the loop variables \<open>x\<close>, \<open>y\<close> and \<open>piecesOnRay\<close> as
  arguments. For \<open>dx = dy = 0\<close> on an empty square the source loop does not end, so the
  loop is a partial function: \<open>None\<close> is "does not return".
\<close>

partial_function (option) rayLoop ::
    "(string \<Rightarrow> Chess option) \<Rightarrow> Chess \<Rightarrow> string \<Rightarrow> int \<Rightarrow> int \<Rightarrow> int \<Rightarrow> int
      \<Rightarrow> PieceInEffect list \<Rightarrow> (error + PieceInEffect list) option"
where
  "rayLoop newChess chessInstance fen' dx dy x y piecesOnRay =
     (if 97 \<le> x \<and> x \<le> 104 \<and> 1 \<le> y \<and> y \<le> 8 then
        (case get chessInstance (char_of x # numStr y) of
           None \<Rightarrow> rayLoop newChess chessInstance fen' dx dy (x + dx) (y + dy) piecesOnRay
         | Some p \<Rightarrow>
             (case buildPieceInEffect newChess (char_of x # numStr y) fen' 0 of
                Inl e \<Rightarrow> Some (Inl e)
              | Inr None \<Rightarrow> Some (Inr piecesOnRay)
              | Inr (Some pieceEffect) \<Rightarrow>
                  (if length (piecesOnRay @ [pieceEffect]) = 2
                   then Some (Inr (piecesOnRay @ [pieceEffect]))
                   else rayLoop newChess chessInstance fen' dx dy (x + dx) (y + dy)
                          (piecesOnRay @ [pieceEffect]))))
      else Some (Inr piecesOnRay))"

definition getPiecesAlongRay ::
    "(string \<Rightarrow> Chess option) \<Rightarrow> Chess \<Rightarrow> string \<Rightarrow> int \<Rightarrow> int \<Rightarrow> string
      \<Rightarrow> (error + PieceInEffect list) option"
where
  "getPiecesAlongRay newChess chessInstance startSquare dx dy fen' =
     (case (charCodeAt0 startSquare, parseIntAt1 startSquare) of
        (Some cx, Some cy) \<Rightarrow> rayLoop newChess chessInstance fen' dx dy (cx + dx) (cy + dy) []
      | _ \<Rightarrow> Some (Inr []))"

subsection \<open>moveInfo (utils.ts, lines 113-302)\<close>

text \<open>Lines 136-143: the tag of the matched move, later assignments overwriting earlier ones.\<close>

definition typeOfMove :: "Move \<Rightarrow> MoveType" where
  "typeOfMove moveObj =
     (let t1 = (if CHR ''p'' \<in> set (flags moveObj) then Promotion
                else if CHR ''c'' \<in> set (flags moveObj) \<or> captured moveObj \<noteq> None then Capture
                else if CHR ''e'' \<in> set (flags moveObj) then EnPassant
                else if CHR ''k'' \<in> set (flags moveObj) \<or> CHR ''q'' \<in> set (flags moveObj) then Castling
                else Normal);
          t2 = (if CHR ''+'' \<in> set (san moveObj) then Check else t1)
      in if CHR ''#'' \<in> set (san moveObj) then Checkmate else t2)"

text \<open>
  Lines 119-157: the search for the legal move of the previous position that leads to the
  current one, its tag, and the captured piece. An absent or empty \<open>prevFen\<close> is falsy.
\<close>

definition matchMove ::
    "(string \<Rightarrow> Chess option) \<Rightarrow> string \<Rightarrow> string option
      \<Rightarrow> error + (Move option \<times> MoveType \<times> PieceInEffect option)"
where
  "matchMove newChess fen' prevFen =
     (case prevFen of
        None \<Rightarrow> Inr (None, Normal, None)
      | Some pf \<Rightarrow>
          if pf = [] then Inr (None, Normal, None)
          else
            (case newChess pf of
               None \<Rightarrow> Inl InvalidFen
             | Some prevChess \<Rightarrow>
                 (case find (\<lambda>m. case newChess pf of None \<Rightarrow> False
                                 | Some c \<Rightarrow> moveThenFen c m = Some fen') (moves prevChess) of
                    None \<Rightarrow> Inr (None, Normal, None)
                  | Some moveObj \<Rightarrow>
                      (case get prevChess (to moveObj) of
                         None \<Rightarrow> Inr (Some moveObj, typeOfMove moveObj, None)
                       | Some captured' \<Rightarrow>
                           (case buildPieceInEffect newChess (to moveObj) pf 0 of
                              Inl e \<Rightarrow> Inl e
                            | Inr None \<Rightarrow> Inr (Some moveObj, typeOfMove moveObj, None)
                            | Inr (Some cp) \<Rightarrow>
                                Inr (Some moveObj, typeOfMove moveObj,
                                     Some (PieceInEffect (to moveObj) (Piece.type captured')
                                            (color cp) (attackers cp) (defenders cp))))))))"

text \<open>Line 158.\<close>

definition stalemate :: "Chess \<Rightarrow> bool" where
  "stalemate chess =
     (if hasIsStalemate chess then isStalemate chess
      else isGameOver chess \<and> \<not> isCheckmate chess \<and> \<not> isDraw chess \<and> \<not> inCheck chess)"

text \<open>Lines 170-177.\<close>

definition defenseOf :: "nat \<Rightarrow> nat \<Rightarrow> DefenseStatus" where
  "defenseOf numAttackers numDefenders =
     (if numDefenders = 0 \<and> numAttackers > 0 then Undefended
      else if numDefenders > 0 \<and> numAttackers = 0 then Overdefended
      else if numDefenders > 0 \<and> numAttackers > 0 then
        (if numDefenders > numAttackers then Overdefended
         else if numDefenders < numAttackers then Underdefended
         else Defended)
      else Defended)"

text \<open>Lines 181-196.\<close>

definition isFianchettoPawnPresent :: "Piece \<Rightarrow> Piece option \<Rightarrow> bool" where
  "isFianchettoPawnPresent piece' pawn =
     (case pawn of None \<Rightarrow> False
      | Some q \<Rightarrow> Piece.type q = Pawn \<and> Piece.color q = Piece.color piece')"

definition fianchetto :: "Chess \<Rightarrow> Piece \<Rightarrow> string \<Rightarrow> bool" where
  "fianchetto chess piece' pieceSquare =
     (Piece.type piece' = Bishop \<and> pieceSquare \<in> set [''b2'', ''g2'', ''b7'', ''g7''] \<and>
      (case pieceSquare of
         file # rank # _ \<Rightarrow>
           (let adder = (if Piece.color piece' = White then 1 else - 1);
                frontPawn = get chess (file # numStr (of_char rank - 48 + adder));
                frontPawnPlusOne = get chess (file # numStr (of_char rank - 48 + adder * 2))
            in isFianchettoPawnPresent piece' frontPawn
               \<or> isFianchettoPawnPresent piece' frontPawnPlusOne)
       | _ \<Rightarrow> False))"

text \<open>
  Lines 199-221: the loop over the 64 squares, with the loop index and the two
  accumulators \<open>defends\<close> and \<open>hangingPieces\<close> as arguments.
\<close>

definition squareOfIndex :: "nat \<Rightarrow> string" where
  "squareOfIndex i = (''abcdefgh'' ! (i mod 8)) # natStr (i div 8 + 1)"

function scanLoop ::
    "(string \<Rightarrow> Chess option) \<Rightarrow> Chess \<Rightarrow> string \<Rightarrow> string \<Rightarrow> nat
      \<Rightarrow> PieceInEffect list \<Rightarrow> (Color \<Rightarrow> PieceInEffect list)
      \<Rightarrow> error + (PieceInEffect list \<times> (Color \<Rightarrow> PieceInEffect list))"
where
  "scanLoop newChess chess fen' pieceSquare i defends' hanging =
     (if i < 64 then
        (let sq = squareOfIndex i in
         case get chess sq of
           None \<Rightarrow> scanLoop newChess chess fen' pieceSquare (i + 1) defends' hanging
         | Some p \<Rightarrow>
             if sq = pieceSquare
             then scanLoop newChess chess fen' pieceSquare (i + 1) defends' hanging
             else
               (case buildPieceInEffect newChess sq fen' 1 of
                  Inl e \<Rightarrow> Inl e
                | Inr None \<Rightarrow> scanLoop newChess chess fen' pieceSquare (i + 1) defends' hanging
                | Inr (Some eff) \<Rightarrow>
                    scanLoop newChess chess fen' pieceSquare (i + 1)
                      (if find (\<lambda>d. at d = pieceSquare) (defenders eff) \<noteq> None \<and> name eff \<noteq> King
                       then defends' @ [eff] else defends')
                      (if length (attackers eff) > 0 \<and> length (defenders eff) = 0
                       then hanging (Piece.color p := hanging (Piece.color p) @ [eff])
                       else hanging)))
      else Inr (defends', hanging))"
  by pat_completeness auto
termination
  by (relation "measure (\<lambda>(_, _, _, _, i, _, _). 64 - i)") auto

text \<open>
  Line 226: \<^verbatim>\<open>chess.fen().replace(/\s[wb]\s/, ` ${piece.color} `)\<close> replaces the first
  match only. \<open>isSpace\<close> is the class \<^verbatim>\<open>\s\<close> on 8-bit code units.
\<close>

definition isSpace :: "char \<Rightarrow> bool" where
  "isSpace c = ((of_char c :: nat) \<in> {9, 10, 11, 12, 13, 32, 160})"

definition colorChar :: "Color \<Rightarrow> char" where
  "colorChar c = (case c of White \<Rightarrow> CHR ''w'' | Black \<Rightarrow> CHR ''b'')"

fun replaceTurn :: "string \<Rightarrow> Color \<Rightarrow> string" where
  "replaceTurn (a # c # d # rest) col =
     (if isSpace a \<and> (c = CHR ''w'' \<or> c = CHR ''b'') \<and> isSpace d
      then CHR '' '' # colorChar col # CHR '' '' # rest
      else a # replaceTurn (c # d # rest) col)"
| "replaceTurn s col = s"

text \<open>Lines 232-242: the loop over the legal moves of the queried piece.\<close>

fun attackLoop ::
    "(string \<Rightarrow> Chess option) \<Rightarrow> Chess \<Rightarrow> string \<Rightarrow> Piece \<Rightarrow> Move list
      \<Rightarrow> PieceInEffect list \<Rightarrow> error + PieceInEffect list"
where
  "attackLoop newChess chess fen' piece' [] attacks' = Inr attacks'"
| "attackLoop newChess chess fen' piece' (move # rest) attacks' =
     (case get chess (to move) of
        None \<Rightarrow> attackLoop newChess chess fen' piece' rest attacks'
      | Some targetPiece \<Rightarrow>
          (case buildPieceInEffect newChess (to move) fen' 0 of
             Inl e \<Rightarrow> Inl e
           | Inr None \<Rightarrow> attackLoop newChess chess fen' piece' rest attacks'
           | Inr (Some targetEffect) \<Rightarrow>
               (if Piece.color targetPiece \<noteq> Piece.color piece'
                then attackLoop newChess chess fen' piece' rest (attacks' @ [targetEffect])
                else attackLoop newChess chess fen' piece' rest attacks')))"

text \<open>Lines 5-12 and 254-290: pins and skewers along the rays of a bishop, rook or queen.\<close>

fun PIECE_VALS :: "PieceSymbol \<Rightarrow> nat" where
  "PIECE_VALS Pawn = 1"
| "PIECE_VALS Knight = 3"
| "PIECE_VALS Bishop = 3"
| "PIECE_VALS Rook = 5"
| "PIECE_VALS Queen = 9"
| "PIECE_VALS King = 100"

definition ALL_8_DIRECTIONS :: "(int \<times> int) list" where
  "ALL_8_DIRECTIONS =
     [(0, 1), (0, - 1), (1, 0), (- 1, 0), (1, 1), (1, - 1), (- 1, 1), (- 1, - 1)]"

definition DIRECTIONS :: "PieceSymbol \<Rightarrow> (int \<times> int) list" where
  "DIRECTIONS t =
     (if t = Bishop then take 4 (drop 4 ALL_8_DIRECTIONS)
      else if t = Rook then take 4 ALL_8_DIRECTIONS
      else ALL_8_DIRECTIONS)"

fun pinLoop ::
    "(string \<Rightarrow> Chess option) \<Rightarrow> Chess \<Rightarrow> string \<Rightarrow> Piece \<Rightarrow> DefenseStatus
      \<Rightarrow> (int \<times> int) list \<Rightarrow> TacticalMove list \<Rightarrow> (error + TacticalMove list) option"
where
  "pinLoop newChess chess pieceSquare piece' defense' [] tactics' = Some (Inr tactics')"
| "pinLoop newChess chess pieceSquare piece' defense' ((dx, dy) # rest) tactics' =
     (case getPiecesAlongRay newChess chess pieceSquare dx dy (fen chess) of
        None \<Rightarrow> None
      | Some (Inl e) \<Rightarrow> Some (Inl e)
      | Some (Inr piecesOnRay) \<Rightarrow>
          (case piecesOnRay of
             firstPiece # secondPiece # _ \<Rightarrow>
               (if color firstPiece \<noteq> Piece.color piece' \<and> color secondPiece \<noteq> Piece.color piece'
                then pinLoop newChess chess pieceSquare piece' defense' rest
                       (tactics' @
                        [\<lparr>tactic' = (if PIECE_VALS (name firstPiece) > PIECE_VALS (name secondPiece)
                                        \<and> defense' \<in> set [Defended, Overdefended]
                                     then Skewer else Pin),
                          targets = [firstPiece, secondPiece]\<rparr>])
                else pinLoop newChess chess pieceSquare piece' defense' rest tactics')
           | _ \<Rightarrow> pinLoop newChess chess pieceSquare piece' defense' rest tactics'))"

text \<open>
  The function itself. The result is \<open>None\<close> when a ray scan does not return,
  \<open>Some (Inl e)\<close> when the rules engine throws, \<open>Some (Inr None)\<close> for \<^verbatim>\<open>null\<close>.
\<close>

definition moveInfo ::
    "(string \<Rightarrow> Chess option) \<Rightarrow> string \<Rightarrow> string \<Rightarrow> string option
      \<Rightarrow> (error + MoveEffect option) option"
where
  "moveInfo newChess pieceSquare fen' prevFen =
     (case newChess fen' of
        None \<Rightarrow> Some (Inl InvalidFen)
      | Some chess \<Rightarrow>
     (case get chess pieceSquare of
        None \<Rightarrow> Some (Inr None)
      | Some piece' \<Rightarrow>
     (case matchMove newChess fen' prevFen of
        Inl e \<Rightarrow> Some (Inl e)
      | Inr (moveObj, type1, capturedPiece') \<Rightarrow>
     (case buildPieceInEffect newChess pieceSquare fen' 1 of
        Inl e \<Rightarrow> Some (Inl e)
      | Inr None \<Rightarrow> Some (Inl TypeError)
      | Inr (Some pieceEffect) \<Rightarrow>
     (let type2 = (if stalemate chess then Stalemate else type1);
          numAttackers = length (attackers pieceEffect);
          numDefenders = length (defenders pieceEffect);
          type3 = (if numAttackers > 0 then Attacking else type2);
          defense' = defenseOf numAttackers numDefenders;
          type4 = (if fianchetto chess piece' pieceSquare then Fianchetto else type3)
      in
     (case scanLoop newChess chess fen' pieceSquare 0 [] (\<lambda>_. []) of
        Inl e \<Rightarrow> Some (Inl e)
      | Inr (defends', hanging) \<Rightarrow>
     (case newChess (replaceTurn (fen chess) (Piece.color piece')) of
        None \<Rightarrow> Some (Inl InvalidFen)
      | Some altered \<Rightarrow>
     (case attackLoop newChess chess fen' piece' (movesOf altered pieceSquare) [] of
        Inl e \<Rightarrow> Some (Inl e)
      | Inr attacks' \<Rightarrow>
     (let tactics1 = (if length attacks' > 1 then [\<lparr>tactic' = Fork, targets = attacks'\<rparr>] else [])
      in
     (case (if Piece.type piece' \<in> set [Bishop, Rook, Queen]
            then pinLoop newChess chess pieceSquare piece' defense'
                   (DIRECTIONS (Piece.type piece')) tactics1
            else Some (Inr tactics1)) of
        None \<Rightarrow> None
      | Some (Inl e) \<Rightarrow> Some (Inl e)
      | Some (Inr tactics') \<Rightarrow>
          Some (Inr (Some \<lparr>piece = pieceEffect, capturedPiece = capturedPiece',
                           tactics = tactics', attacks = attacks', defends = defends',
                           type = type4, defense = defense',
                           hangingPieces = hanging\<rparr>))))))))))))"

subsection \<open>The class BetterChess (index.ts)\<close>

text \<open>
  A numeric property of a JavaScript object: a number, or \<^verbatim>\<open>NaN\<close>, which is what
  \<^verbatim>\<open>--\<close> and \<^verbatim>\<open>++\<close> store when the property was missing. A \<^verbatim>\<open>PieceRecord\<close> is the
  object itself: a map from property names to values.
\<close>

datatype jsnum = Num int | NaN

type_synonym PieceRecord = "string \<Rightarrow> jsnum option"

text \<open>
  The state inherited from \<^verbatim>\<open>Chess\<close>, as the methods \<^verbatim>\<open>fen()\<close>,
  \<^verbatim>\<open>history({verbose: true})\<close> and \<^verbatim>\<open>turn()\<close> read it, and the object with its own
  field \<^verbatim>\<open>material\<close>.
\<close>

record Game =
  gameFen :: string
  gameHistory :: "Move list"
  gameTurn :: Color

record BetterChess =
  super :: Game
  material :: "Color \<Rightarrow> PieceRecord"

definition initialRecord :: PieceRecord where
  "initialRecord = [''r'' \<mapsto> Num 2, ''n'' \<mapsto> Num 2, ''b'' \<mapsto> Num 2, ''q'' \<mapsto> Num 1, ''p'' \<mapsto> Num 8]"

definition initialMaterial :: "Color \<Rightarrow> PieceRecord" where
  "initialMaterial = (\<lambda>_. initialRecord)"

fun symbolKey :: "PieceSymbol \<Rightarrow> string" where
  "symbolKey Pawn = ''p''"
| "symbolKey Knight = ''n''"
| "symbolKey Bishop = ''b''"
| "symbolKey Rook = ''r''"
| "symbolKey Queen = ''q''"
| "symbolKey King = ''k''"

definition decrement :: "PieceRecord \<Rightarrow> string \<Rightarrow> PieceRecord" where
  "decrement rec k = rec (k \<mapsto> (case rec k of Some (Num n) \<Rightarrow> Num (n - 1) | _ \<Rightarrow> NaN))"

definition increment :: "PieceRecord \<Rightarrow> string \<Rightarrow> PieceRecord" where
  "increment rec k = rec (k \<mapsto> (case rec k of Some (Num n) \<Rightarrow> Num (n + 1) | _ \<Rightarrow> NaN))"

text \<open>
  Lines 322-337 of the listing. \<open>superMove args\<close> stands for \<^verbatim>\<open>super.move(...args)\<close>: it
  returns the move made (\<open>None\<close> for \<^verbatim>\<open>null\<close>) or throws, and the inherited state after
  the call. The result pairs what the method returns or throws with the object after the
  call; \<open>None\<close> is "does not return".
\<close>

definition moveAndAnalyze ::
    "(string \<Rightarrow> Chess option) \<Rightarrow> ('a \<Rightarrow> Game \<Rightarrow> (error + Move option) \<times> Game) \<Rightarrow> 'a
      \<Rightarrow> BetterChess \<Rightarrow> ((error + MoveEffect option) \<times> BetterChess) option"
where
  "moveAndAnalyze newChess superMove args this =
     (case superMove args (super this) of
        (Inl e, g) \<Rightarrow> Some (Inl e, this\<lparr>super := g\<rparr>)
      | (Inr None, g) \<Rightarrow> Some (Inr None, this\<lparr>super := g\<rparr>)
      | (Inr (Some move), g) \<Rightarrow>
          (let turn = gameTurn g in
           case moveInfo newChess (to move) (after move) (Some (before move)) of
             None \<Rightarrow> None
           | Some (Inl e) \<Rightarrow> Some (Inl e, this\<lparr>super := g\<rparr>)
           | Some (Inr None) \<Rightarrow> Some (Inr None, this\<lparr>super := g\<rparr>)
           | Some (Inr (Some analysis)) \<Rightarrow>
               (let material1 =
                      (case capturedPiece analysis of
                         None \<Rightarrow> material this
                       | Some piece' \<Rightarrow>
                           (material this)
                             (turn := decrement (material this turn) (symbolKey (name piece'))));
                    material2 =
                      (if MoveEffect.type analysis = Promotion
                       then (let promotedPiece =
                                   (case promotion move of
                                      None \<Rightarrow> ''undefined''
                                    | Some k \<Rightarrow> symbolKey k);
                                 side = (if turn = White then Black else White)
                             in material1 (side := increment (material1 side) promotedPiece))
                       else material1)
                in Some (Inr (Some analysis), \<lparr>super = g, material = material2\<rparr>))))"

text \<open>Lines 341-346 of the listing.\<close>

definition getAnalysisAt ::
    "(string \<Rightarrow> Chess option) \<Rightarrow> string \<Rightarrow> BetterChess
      \<Rightarrow> ((error + MoveEffect option) \<times> BetterChess) option"
where
  "getAnalysisAt newChess square this =
     (let history = gameHistory (super this);
          lastMove = (if 2 \<le> length history then Some (history ! (length history - 2)) else None);
          prevFen = (case lastMove of
                       None \<Rightarrow> None
                     | Some m \<Rightarrow> if after m = [] then None else Some (after m))
      in case moveInfo newChess square (gameFen (super this)) prevFen of
           None \<Rightarrow> None
         | Some res \<Rightarrow> Some (res, this))"

section \<open>Notions used to state the properties\<close>

text \<open>
  The descriptor of an occupied square with empty lists, the descriptors of the occupied
  squares of a list whose pieces satisfy a predicate, and the depth-limited resolution of
  the specification (\<open>resolve(square, boardSnapshot, depth)\<close>) on a loaded position.
\<close>

definition leaf :: "string \<Rightarrow> Piece \<Rightarrow> PieceInEffect" where
  "leaf sq p = PieceInEffect sq (Piece.type p) (Piece.color p) [] []"

definition leavesWhere :: "Chess \<Rightarrow> (Piece \<Rightarrow> bool) \<Rightarrow> string list \<Rightarrow> PieceInEffect list" where
  "leavesWhere chess P xs =
     concat (map (\<lambda>x. case get chess x of None \<Rightarrow> [] | Some q \<Rightarrow> if P q then [leaf x q] else []) xs)"

definition resolve :: "Chess \<Rightarrow> string \<Rightarrow> nat \<Rightarrow> PieceInEffect option" where
  "resolve chess sq depth =
     (case get chess sq of
        None \<Rightarrow> None
      | Some p \<Rightarrow>
          Some (PieceInEffect sq (Piece.type p) (Piece.color p)
            (if depth > 0
             then leavesWhere chess (\<lambda>q. Piece.color q \<noteq> Piece.color p)
                    (attackersOf chess sq White @ attackersOf chess sq Black)
             else [])
            (if depth > 0
             then leavesWhere chess (\<lambda>q. Piece.color q = Piece.color p)
                    (attackersOf chess sq White @ attackersOf chess sq Black)
             else [])))"

text \<open>
  The depth-1 descriptors of the occupied squares other than the queried one, in the order
  of the board scan, from index \<open>i\<close> on.
\<close>

definition scanned :: "Chess \<Rightarrow> string \<Rightarrow> nat \<Rightarrow> PieceInEffect list" where
  "scanned chess pieceSquare i =
     concat (map (\<lambda>j. if squareOfIndex j = pieceSquare then []
                        else (case resolve chess (squareOfIndex j) 1 of None \<Rightarrow> [] | Some e \<Rightarrow> [e]))
                 [i..<64])"

text \<open>
  A descriptor is depth-bounded when the descriptors nested in its two lists have empty
  lists themselves. \<open>descriptorsOf\<close> collects the descriptors at the top level of every
  field of a result.
\<close>

definition depthBounded :: "PieceInEffect \<Rightarrow> bool" where
  "depthBounded d = (\<forall>x \<in> set (attackers d @ defenders d). attackers x = [] \<and> defenders x = [])"

definition descriptorsOf :: "MoveEffect \<Rightarrow> PieceInEffect list" where
  "descriptorsOf r =
     piece r # (case capturedPiece r of None \<Rightarrow> [] | Some c \<Rightarrow> [c]) @ attacks r @ defends r
       @ concat (map targets (tactics r)) @ hangingPieces r White @ hangingPieces r Black"

text \<open>The result of a call that returned an analysis, for stating concrete evaluations.\<close>

definition returned :: "(error + MoveEffect option) option \<Rightarrow> MoveEffect option" where
  "returned res = (case res of Some (Inr (Some r)) \<Rightarrow> Some r | _ \<Rightarrow> None)"

definition hangingOf :: "(error + MoveEffect option) option \<Rightarrow> Color \<Rightarrow> PieceInEffect list option" where
  "hangingOf res c = map_option (\<lambda>r. hangingPieces r c) (returned res)"

text \<open>
  The legal move of a previous position that leads to the current one: the move that the
  search of lines 128-133 finds.
\<close>

definition matchedMove :: "Chess \<Rightarrow> string \<Rightarrow> Move option" where
  "matchedMove prevChess f = find (\<lambda>m. moveThenFen prevChess m = Some f) (moves prevChess)"

text \<open>
  The material values and the ray directions of each kind of piece, as the specification
  lists them: pawn 1, knight 3, bishop 3, rook 5, queen 9, king 100; the four diagonals for
  a bishop, the four orthogonals for a rook, all eight for a queen, and none for the other
  kinds. A direction is the pair of the step in the file and the step in the rank.
\<close>

fun materialValue :: "PieceSymbol \<Rightarrow> nat" where
  "materialValue Pawn = 1"
| "materialValue Knight = 3"
| "materialValue Bishop = 3"
| "materialValue Rook = 5"
| "materialValue Queen = 9"
| "materialValue King = 100"

definition orthogonals :: "(int \<times> int) list" where
  "orthogonals = [(0, 1), (0, - 1), (1, 0), (- 1, 0)]"

definition diagonals :: "(int \<times> int) list" where
  "diagonals = [(1, 1), (1, - 1), (- 1, 1), (- 1, - 1)]"

fun relevantDirections :: "PieceSymbol \<Rightarrow> (int \<times> int) list" where
  "relevantDirections Bishop = diagonals"
| "relevantDirections Rook = orthogonals"
| "relevantDirections Queen = orthogonals @ diagonals"
| "relevantDirections Pawn = []"
| "relevantDirections Knight = []"
| "relevantDirections King = []"

text \<open>
  The geometry of a ray, after the specification: the squares \<open>start + k * direction\<close> for
  \<open>k = 1, 2, \<dots>\<close> while they stay on the board (a run on the board in a direction other
  than \<open>(0, 0)\<close> has at most 8 squares, so \<open>k < 10\<close> loses none); the first two occupied
  squares of a ray; and the pin-or-skewer finding of a direction: none unless the ray has
  two occupied squares holding pieces of the side opposite to the queried piece, and then
  one finding on the front and the back piece, a skewer when the front piece is worth
  strictly more than the back piece and the queried piece is defended or overdefended,
  a pin otherwise.
\<close>

definition onBoard :: "int \<Rightarrow> int \<Rightarrow> bool" where
  "onBoard x y = (97 \<le> x \<and> x \<le> 104 \<and> 1 \<le> y \<and> y \<le> 8)"

definition raySquares :: "string \<Rightarrow> int \<times> int \<Rightarrow> string list" where
  "raySquares sq d =
     (case (charCodeAt0 sq, parseIntAt1 sq) of
        (Some cx, Some cy) \<Rightarrow>
          map (\<lambda>k. char_of (cx + int k * fst d) # numStr (cy + int k * snd d))
            (takeWhile (\<lambda>k. onBoard (cx + int k * fst d) (cy + int k * snd d)) [1..<10])
      | _ \<Rightarrow> [])"

definition firstTwo :: "Chess \<Rightarrow> string \<Rightarrow> int \<times> int \<Rightarrow> string list" where
  "firstTwo chess sq d = take 2 (filter (\<lambda>s. get chess s \<noteq> None) (raySquares sq d))"

definition pinOrSkewer ::
    "Chess \<Rightarrow> string \<Rightarrow> Piece \<Rightarrow> DefenseStatus \<Rightarrow> int \<times> int \<Rightarrow> TacticalMove list" where
  "pinOrSkewer chess sq p dfn d =
     (case firstTwo chess sq d of
        [front, back] \<Rightarrow>
          (case (get chess front, get chess back) of
             (Some p1, Some p2) \<Rightarrow>
               if Piece.color p1 \<noteq> Piece.color p \<and> Piece.color p2 \<noteq> Piece.color p
               then [\<lparr>tactic' = (if materialValue (Piece.type p1) > materialValue (Piece.type p2)
                                     \<and> (dfn = Defended \<or> dfn = Overdefended)
                                  then Skewer else Pin),
                       targets = [leaf front p1, leaf back p2]\<rparr>]
               else []
           | _ \<Rightarrow> [])
      | _ \<Rightarrow> [])"

section \<open>Concrete positions\<close>

text \<open>
  Rules engines that know a handful of positions, each with the answers chess.js gives to
  the queries the module makes on it, for evaluating the definitions on concrete input.
  \<open>attackersOf\<close> is given on the occupied squares, the only ones the module asks about,
  \<open>moveThenFen\<close> on the moves up to the one the search finds; fields an evaluation does
  not read are left empty. Moves are listed in the order in which chess.js generates them.
\<close>

definition mkPiece :: "Color \<Rightarrow> PieceSymbol \<Rightarrow> Piece" where
  "mkPiece c t = \<lparr>Piece.color = c, type = t\<rparr>"

definition mkMove :: "string \<Rightarrow> string \<Rightarrow> string \<Rightarrow> PieceSymbol option \<Rightarrow> PieceSymbol option \<Rightarrow> Move" where
  "mkMove t fl s c p =
     \<lparr>to = t, flags = fl, san = s, captured = c, promotion = p, before = [], after = []\<rparr>"

definition tableOf :: "((string \<times> Color) \<times> string list) list \<Rightarrow> string \<Rightarrow> Color \<Rightarrow> string list" where
  "tableOf tbl s c = (case map_of tbl (s, c) of None \<Rightarrow> [] | Some xs \<Rightarrow> xs)"

definition mkChess ::
    "string \<Rightarrow> (string \<times> Piece) list \<Rightarrow> ((string \<times> Color) \<times> string list) list \<Rightarrow> Chess" where
  "mkChess f pieces att =
     \<lparr>get = map_of pieces, attackersOf = tableOf att, moves = [], movesOf = (\<lambda>_. []),
      moveThenFen = (\<lambda>_. None), fen = f, hasIsStalemate = True, isStalemate = False,
      isGameOver = False, isCheckmate = False, isDraw = False, inCheck = False\<rparr>"

subsection \<open>A stalemate\<close>

text \<open>
  Black king a8, white pawn a7, white king b6, Black to move. The pawn is attacked by the
  black king and defended by the white king. \<open>fenStaleW\<close> is the same position with
  White to move, which line 226 loads.
\<close>

definition fenStale :: string where
  "fenStale = ''k7/P7/1K6/8/8/8/8/8 b - - 0 1''"

definition fenStaleW :: string where
  "fenStaleW = ''k7/P7/1K6/8/8/8/8/8 w - - 0 1''"

definition posStale :: Chess where
  "posStale = (mkChess fenStale
       [(''a8'', mkPiece Black King), (''a7'', mkPiece White Pawn), (''b6'', mkPiece White King)]
       [((''a7'', White), [''b6'']), ((''a7'', Black), [''a8''])])
     \<lparr>isStalemate := True, isGameOver := True, isDraw := True\<rparr>"

definition engStale :: "string \<Rightarrow> Chess option" where
  "engStale s =
     (if s = fenStale then Some posStale
      else if s = fenStaleW
        then Some (posStale\<lparr>fen := fenStaleW, isStalemate := False, isGameOver := False,
                      isDraw := False\<rparr>)
      else None)"

text \<open>The analysis of the white king on b6.\<close>

definition analysisStale :: MoveEffect where
  "analysisStale =
     \<lparr>piece = PieceInEffect ''b6'' King White [] [],
      capturedPiece = None, tactics = [], attacks = [],
      defends = [PieceInEffect ''a7'' Pawn White [PieceInEffect ''a8'' King Black [] []]
                   [PieceInEffect ''b6'' King White [] []]],
      type = Stalemate, defense = Defended, hangingPieces = (\<lambda>_. [])\<rparr>"

subsection \<open>A knight fork, and the capture that follows\<close>

text \<open>
  White king g1, white knight c7; black king h8, black rook a8, black bishop e6. The
  knight attacks the rook and the bishop, neither of which is defended. \<open>fenForkW\<close> is
  the position with White to move; from it the knight takes the rook, giving \<open>fenTaken\<close>.
\<close>

definition fenFork :: string where
  "fenFork = ''r6k/2N5/4b3/8/8/8/8/6K1 b - - 0 1''"

definition fenForkW :: string where
  "fenForkW = ''r6k/2N5/4b3/8/8/8/8/6K1 w - - 0 1''"

definition fenTaken :: string where
  "fenTaken = ''N6k/8/4b3/8/8/8/8/6K1 b - - 0 1''"

definition fenTakenW :: string where
  "fenTakenW = ''N6k/8/4b3/8/8/8/8/6K1 w - - 0 1''"

definition knightMoves :: "Move list" where
  "knightMoves =
     [mkMove ''a8'' ''c'' ''Nxa8'' (Some Rook) None, mkMove ''e8'' ''n'' ''Ne8'' None None,
      mkMove ''e6'' ''c'' ''Nxe6'' (Some Bishop) None, mkMove ''d5'' ''n'' ''Nd5'' None None,
      mkMove ''b5'' ''n'' ''Nb5'' None None, mkMove ''a6'' ''n'' ''Na6'' None None]"

definition kingMovesG1 :: "Move list" where
  "kingMovesG1 =
     [mkMove ''f2'' ''n'' ''Kf2'' None None, mkMove ''g2'' ''n'' ''Kg2'' None None,
      mkMove ''h2'' ''n'' ''Kh2'' None None, mkMove ''h1'' ''n'' ''Kh1'' None None,
      mkMove ''f1'' ''n'' ''Kf1'' None None]"

definition posFork :: Chess where
  "posFork = mkChess fenFork
       [(''a8'', mkPiece Black Rook), (''h8'', mkPiece Black King), (''c7'', mkPiece White Knight),
        (''e6'', mkPiece Black Bishop), (''g1'', mkPiece White King)]
       [((''a8'', White), [''c7'']), ((''e6'', White), [''c7'']), ((''h8'', Black), [''a8''])]"

definition posForkW :: Chess where
  "posForkW = posFork
     \<lparr>fen := fenForkW, moves := knightMoves @ kingMovesG1,
      movesOf := (\<lambda>s. if s = ''c7'' then knightMoves else if s = ''g1'' then kingMovesG1 else []),
      moveThenFen := (\<lambda>m. if to m = ''a8'' then Some fenTaken else None)\<rparr>"

definition posTaken :: Chess where
  "posTaken = mkChess fenTaken
       [(''a8'', mkPiece White Knight), (''h8'', mkPiece Black King),
        (''e6'', mkPiece Black Bishop), (''g1'', mkPiece White King)]
       []"

definition posTakenW :: Chess where
  "posTakenW = posTaken
     \<lparr>fen := fenTakenW,
      movesOf := (\<lambda>s. if s = ''a8''
                       then [mkMove ''c7'' ''n'' ''Nc7'' None None, mkMove ''b6'' ''n'' ''Nb6'' None None]
                       else [])\<rparr>"

definition engFork :: "string \<Rightarrow> Chess option" where
  "engFork s =
     (if s = fenFork then Some posFork
      else if s = fenForkW then Some posForkW
      else if s = fenTaken then Some posTaken
      else if s = fenTakenW then Some posTakenW
      else None)"

text \<open>The analyses of the knight on c7 and, after the capture, of the knight on a8.\<close>

definition analysisFork :: MoveEffect where
  "analysisFork =
     \<lparr>piece = PieceInEffect ''c7'' Knight White [] [],
      capturedPiece = None,
      tactics = [\<lparr>tactic' = Fork,
                  targets = [PieceInEffect ''a8'' Rook Black [] [],
                             PieceInEffect ''e6'' Bishop Black [] []]\<rparr>],
      attacks = [PieceInEffect ''a8'' Rook Black [] [], PieceInEffect ''e6'' Bishop Black [] []],
      defends = [], type = Normal, defense = Defended,
      hangingPieces = (\<lambda>_. [])
        (Black := [PieceInEffect ''e6'' Bishop Black [PieceInEffect ''c7'' Knight White [] []] [],
                   PieceInEffect ''a8'' Rook Black [PieceInEffect ''c7'' Knight White [] []] []])\<rparr>"

definition analysisTaken :: MoveEffect where
  "analysisTaken =
     \<lparr>piece = PieceInEffect ''a8'' Knight White [] [],
      capturedPiece = Some (PieceInEffect ''a8'' Rook Black [] []),
      tactics = [], attacks = [], defends = [], type = Capture, defense = Defended,
      hangingPieces = (\<lambda>_. [])\<rparr>"

subsection \<open>An en-passant capture\<close>

text \<open>
  White king e1, white pawn e5; black king e8, black pawn d5, which has just advanced two
  squares. White takes en passant: the pawn goes to d6, which was empty, and the pawn on
  d5 disappears.
\<close>

definition fenBeforeEP :: string where
  "fenBeforeEP = ''4k3/8/8/3pP3/8/8/8/4K3 w - d6 0 2''"

definition fenAfterEP :: string where
  "fenAfterEP = ''4k3/8/3P4/8/8/8/8/4K3 b - - 0 2''"

definition fenAfterEPW :: string where
  "fenAfterEPW = ''4k3/8/3P4/8/8/8/8/4K3 w - - 0 2''"

definition moveEP :: Move where
  "moveEP = (mkMove ''d6'' ''e'' ''exd6'' (Some Pawn) None)
     \<lparr>before := fenBeforeEP, after := fenAfterEP\<rparr>"

definition posBeforeEP :: Chess where
  "posBeforeEP = (mkChess fenBeforeEP
       [(''e8'', mkPiece Black King), (''d5'', mkPiece Black Pawn), (''e5'', mkPiece White Pawn),
        (''e1'', mkPiece White King)]
       [])
     \<lparr>moves := [mkMove ''e6'' ''n'' ''e6'' None None, moveEP,
                 mkMove ''d2'' ''n'' ''Kd2'' None None, mkMove ''e2'' ''n'' ''Ke2'' None None,
                 mkMove ''f2'' ''n'' ''Kf2'' None None, mkMove ''f1'' ''n'' ''Kf1'' None None,
                 mkMove ''d1'' ''n'' ''Kd1'' None None],
      moveThenFen := (\<lambda>m. if to m = ''e6'' then Some ''4k3/8/4P3/3p4/8/8/8/4K3 b - - 0 2''
                           else if to m = ''d6'' then Some fenAfterEP
                           else None)\<rparr>"

definition posAfterEP :: Chess where
  "posAfterEP = mkChess fenAfterEP
       [(''e8'', mkPiece Black King), (''d6'', mkPiece White Pawn), (''e1'', mkPiece White King)]
       []"

definition engEP :: "string \<Rightarrow> Chess option" where
  "engEP s =
     (if s = fenBeforeEP then Some posBeforeEP
      else if s = fenAfterEP then Some posAfterEP
      else if s = fenAfterEPW
        then Some (posAfterEP\<lparr>fen := fenAfterEPW,
                      movesOf := (\<lambda>s. if s = ''d6'' then [mkMove ''d7'' ''n'' ''d7+'' None None] else [])\<rparr>)
      else None)"

text \<open>
  The analysis of the pawn on d6 after the capture, a \<^verbatim>\<open>BetterChess\<close> object on the
  position before it, and what \<^verbatim>\<open>super.move\<close> does on that object for this move.
\<close>

definition analysisEP :: MoveEffect where
  "analysisEP =
     \<lparr>piece = PieceInEffect ''d6'' Pawn White [] [],
      capturedPiece = None, tactics = [], attacks = [], defends = [], type = Capture,
      defense = Defended, hangingPieces = (\<lambda>_. [])\<rparr>"

definition gameBeforeEP :: BetterChess where
  "gameBeforeEP =
     \<lparr>super = \<lparr>gameFen = fenBeforeEP, gameHistory = [], gameTurn = White\<rparr>,
      material = initialMaterial\<rparr>"

definition gameAfterEP :: Game where
  "gameAfterEP = \<lparr>gameFen = fenAfterEP, gameHistory = [moveEP], gameTurn = Black\<rparr>"

definition superEnPassant :: "unit \<Rightarrow> Game \<Rightarrow> (error + Move option) \<times> Game" where
  "superEnPassant args g = (Inr (Some moveEP), gameAfterEP)"

subsection \<open>A king in check\<close>

text \<open>
  White king e1; black rook e8, black king h8; White to move. The rook attacks the white
  king, which nothing defends, and the black king is defended by the rook.
\<close>

definition fenCheck :: string where
  "fenCheck = ''4r2k/8/8/8/8/8/8/4K3 w - - 0 1''"

definition fenCheckB :: string where
  "fenCheckB = ''4r2k/8/8/8/8/8/8/4K3 b - - 0 1''"

definition posCheck :: Chess where
  "posCheck = (mkChess fenCheck
       [(''e8'', mkPiece Black Rook), (''h8'', mkPiece Black King), (''e1'', mkPiece White King)]
       [((''e1'', Black), [''e8'']), ((''h8'', Black), [''e8''])])
     \<lparr>inCheck := True,
      movesOf := (\<lambda>s. if s = ''e1''
                       then [mkMove ''d2'' ''n'' ''Kd2'' None None, mkMove ''f2'' ''n'' ''Kf2'' None None,
                             mkMove ''f1'' ''n'' ''Kf1'' None None, mkMove ''d1'' ''n'' ''Kd1'' None None]
                       else [])\<rparr>"

definition engCheck :: "string \<Rightarrow> Chess option" where
  "engCheck s =
     (if s = fenCheck then Some posCheck
      else if s = fenCheckB
        then Some (posCheck\<lparr>fen := fenCheckB,
                      movesOf := (\<lambda>s. if s = ''h8''
                         then [mkMove ''h7'' ''n'' ''Kh7'' None None, mkMove ''g7'' ''n'' ''Kg7'' None None,
                               mkMove ''g8'' ''n'' ''Kg8'' None None]
                         else [])\<rparr>)
      else None)"

text \<open>The analysis of the black king on h8.\<close>

definition analysisCheck :: MoveEffect where
  "analysisCheck =
     \<lparr>piece = PieceInEffect ''h8'' King Black [] [PieceInEffect ''e8'' Rook Black [] []],
      capturedPiece = None, tactics = [], attacks = [], defends = [], type = Normal,
      defense = Overdefended,
      hangingPieces = (\<lambda>_. [])
        (White := [PieceInEffect ''e1'' King White [PieceInEffect ''e8'' Rook Black [] []] []])\<rparr>"

subsection \<open>A pin\<close>

text \<open>
  White king e1, white queen d1, white knight f3; black king g8, black knight f6, black
  bishop g4. The bishop, defended by the knight on f6, pins the knight on f3 against
  the queen. \<open>fenPinB\<close> is the position with Black to move.
\<close>

definition fenPin :: string where
  "fenPin = ''6k1/8/5n2/8/6b1/5N2/8/3QK3 w - - 0 1''"

definition fenPinB :: string where
  "fenPinB = ''6k1/8/5n2/8/6b1/5N2/8/3QK3 b - - 0 1''"

definition posPin :: Chess where
  "posPin = mkChess fenPin
       [(''g8'', mkPiece Black King), (''f6'', mkPiece Black Knight), (''g4'', mkPiece Black Bishop),
        (''f3'', mkPiece White Knight), (''d1'', mkPiece White Queen), (''e1'', mkPiece White King)]
       [((''g8'', Black), [''f6'']), ((''g4'', Black), [''f6'']),
        ((''f3'', White), [''d1'']), ((''f3'', Black), [''g4'']),
        ((''d1'', White), [''e1'']), ((''e1'', White), [''f3'', ''d1''])]"

definition bishopMoves :: "Move list" where
  "bishopMoves =
     [mkMove ''f5'' ''n'' ''Bf5'' None None, mkMove ''e6'' ''n'' ''Be6'' None None,
      mkMove ''d7'' ''n'' ''Bd7'' None None, mkMove ''c8'' ''n'' ''Bc8'' None None,
      mkMove ''h5'' ''n'' ''Bh5'' None None, mkMove ''h3'' ''n'' ''Bh3'' None None,
      mkMove ''f3'' ''c'' ''Bxf3'' (Some Knight) None]"

definition engPin :: "string \<Rightarrow> Chess option" where
  "engPin s =
     (if s = fenPin then Some posPin
      else if s = fenPinB
        then Some (posPin\<lparr>fen := fenPinB,
                      movesOf := (\<lambda>s. if s = ''g4'' then bishopMoves else [])\<rparr>)
      else None)"

definition analysisPin :: MoveEffect where
  "analysisPin =
     \<lparr>piece = PieceInEffect ''g4'' Bishop Black [] [PieceInEffect ''f6'' Knight Black [] []],
      capturedPiece = None,
      tactics = [\<lparr>tactic' = Pin,
                  targets = [PieceInEffect ''f3'' Knight White [] [],
                             PieceInEffect ''d1'' Queen White [] []]\<rparr>],
      attacks = [PieceInEffect ''f3'' Knight White [] []],
      defends = [], type = Normal, defense = Overdefended,
      hangingPieces = (\<lambda>_. [])\<rparr>"

subsection \<open>A promotion\<close>

text \<open>
  White king g1, white pawn a7; black king c3, black rook h8. White promotes on a8 to a
  knight, which the rook on h8 attacks along the eighth rank. \<open>gameBefore\<close> is a
  \<^verbatim>\<open>BetterChess\<close> object on the position before the move, and \<open>superPromote\<close> is
  what \<^verbatim>\<open>super.move\<close> does on it for this move.
\<close>

definition fenBeforePromo :: string where
  "fenBeforePromo = ''7r/P7/8/8/8/2k5/8/6K1 w - - 0 1''"

definition fenAfterPromo :: string where
  "fenAfterPromo = ''N6r/8/8/8/8/2k5/8/6K1 b - - 0 1''"

definition fenAfterPromoW :: string where
  "fenAfterPromoW = ''N6r/8/8/8/8/2k5/8/6K1 w - - 0 1''"

definition movePromo :: Move where
  "movePromo = (mkMove ''a8'' ''np'' ''a8=N'' None (Some Knight))
     \<lparr>before := fenBeforePromo, after := fenAfterPromo\<rparr>"

definition posBeforePromo :: Chess where
  "posBeforePromo = (mkChess fenBeforePromo
       [(''h8'', mkPiece Black Rook), (''a7'', mkPiece White Pawn), (''c3'', mkPiece Black King),
        (''g1'', mkPiece White King)]
       [])
     \<lparr>moves := [movePromo,
                 mkMove ''a8'' ''np'' ''a8=B'' None (Some Bishop),
                 mkMove ''a8'' ''np'' ''a8=R'' None (Some Rook),
                 mkMove ''a8'' ''np'' ''a8=Q'' None (Some Queen),
                 mkMove ''f2'' ''n'' ''Kf2'' None None, mkMove ''g2'' ''n'' ''Kg2'' None None,
                 mkMove ''f1'' ''n'' ''Kf1'' None None],
      moveThenFen := (\<lambda>m. if promotion m = Some Knight then Some fenAfterPromo
                           else if promotion m = Some Bishop then Some ''B6r/8/8/8/8/2k5/8/6K1 b - - 0 1''
                           else if promotion m = Some Rook then Some ''R6r/8/8/8/8/2k5/8/6K1 b - - 0 1''
                           else if promotion m = Some Queen then Some ''Q6r/8/8/8/8/2k5/8/6K1 b - - 0 1''
                           else None)\<rparr>"

definition posAfterPromo :: Chess where
  "posAfterPromo = mkChess fenAfterPromo
       [(''a8'', mkPiece White Knight), (''h8'', mkPiece Black Rook), (''c3'', mkPiece Black King),
        (''g1'', mkPiece White King)]
       [((''a8'', Black), [''h8''])]"

definition engPromo :: "string \<Rightarrow> Chess option" where
  "engPromo s =
     (if s = fenBeforePromo then Some posBeforePromo
      else if s = fenAfterPromo then Some posAfterPromo
      else if s = fenAfterPromoW
        then Some (posAfterPromo\<lparr>fen := fenAfterPromoW,
                      movesOf := (\<lambda>s. if s = ''a8''
                         then [mkMove ''c7'' ''n'' ''Nc7'' None None, mkMove ''b6'' ''n'' ''Nb6'' None None]
                         else [])\<rparr>)
      else None)"

definition analysisPromo :: MoveEffect where
  "analysisPromo =
     \<lparr>piece = PieceInEffect ''a8'' Knight White [PieceInEffect ''h8'' Rook Black [] []] [],
      capturedPiece = None, tactics = [], attacks = [], defends = [], type = Attacking,
      defense = Undefended, hangingPieces = (\<lambda>_. [])\<rparr>"

definition gameBefore :: BetterChess where
  "gameBefore =
     \<lparr>super = \<lparr>gameFen = fenBeforePromo, gameHistory = [], gameTurn = White\<rparr>,
      material = initialMaterial\<rparr>"

definition gameAfter :: Game where
  "gameAfter = \<lparr>gameFen = fenAfterPromo, gameHistory = [movePromo], gameTurn = Black\<rparr>"

definition superPromote :: "unit \<Rightarrow> Game \<Rightarrow> (error + Move option) \<times> Game" where
  "superPromote args g = (Inr (Some movePromo), gameAfter)"

subsection \<open>A skewer\<close>

text \<open>
  White king f1, white rook e1; black king h8, black rook e8, black queen e5; Black to
  move. The rook on e1, attacked by the queen and defended by the king, skewers the queen
  against the rook on e8. \<open>fenSkewerW\<close> is the position with White to move.
\<close>

definition fenSkewer :: string where
  "fenSkewer = ''4r2k/8/8/4q3/8/8/8/4RK2 b - - 0 1''"

definition fenSkewerW :: string where
  "fenSkewerW = ''4r2k/8/8/4q3/8/8/8/4RK2 w - - 0 1''"

definition posSkewer :: Chess where
  "posSkewer = mkChess fenSkewer
       [(''e8'', mkPiece Black Rook), (''h8'', mkPiece Black King), (''e5'', mkPiece Black Queen),
        (''e1'', mkPiece White Rook), (''f1'', mkPiece White King)]
       [((''e8'', Black), [''e5'']), ((''h8'', Black), [''e8'']),
        ((''e5'', White), [''e1'']), ((''e5'', Black), [''e8'']),
        ((''e1'', White), [''f1'']), ((''e1'', Black), [''e5'']),
        ((''f1'', White), [''e1''])]"

definition rookMoves :: "Move list" where
  "rookMoves =
     [mkMove ''e2'' ''n'' ''Re2'' None None, mkMove ''e3'' ''n'' ''Re3'' None None,
      mkMove ''e4'' ''n'' ''Re4'' None None, mkMove ''e5'' ''c'' ''Rxe5'' (Some Queen) None,
      mkMove ''d1'' ''n'' ''Rd1'' None None, mkMove ''c1'' ''n'' ''Rc1'' None None,
      mkMove ''b1'' ''n'' ''Rb1'' None None, mkMove ''a1'' ''n'' ''Ra1'' None None]"

definition engSkewer :: "string \<Rightarrow> Chess option" where
  "engSkewer s =
     (if s = fenSkewer then Some posSkewer
      else if s = fenSkewerW
        then Some (posSkewer\<lparr>fen := fenSkewerW,
                      movesOf := (\<lambda>s. if s = ''e1'' then rookMoves else [])\<rparr>)
      else None)"

definition analysisSkewer :: MoveEffect where
  "analysisSkewer =
     \<lparr>piece = PieceInEffect ''e1'' Rook White [PieceInEffect ''e5'' Queen Black [] []]
                [PieceInEffect ''f1'' King White [] []],
      capturedPiece = None,
      tactics = [\<lparr>tactic' = Skewer,
                  targets = [PieceInEffect ''e5'' Queen Black [] [],
                             PieceInEffect ''e8'' Rook Black [] []]\<rparr>],
      attacks = [PieceInEffect ''e5'' Queen Black [] []],
      defends = [], type = Attacking, defense = Defended,
      hangingPieces = (\<lambda>_. [])\<rparr>"

subsection \<open>A capture with promotion\<close>

text \<open>
  White king e1, white pawn b7; black king e8, black rook a8; White to move. The pawn
  attacks one piece, the rook, and has eight legal moves: to b8 and to a8, each with the
  four promotions.
\<close>

definition fenPawn :: string where
  "fenPawn = ''r3k3/1P6/8/8/8/8/8/4K3 w - - 0 1''"

definition pawnMoves :: "Move list" where
  "pawnMoves =
     [mkMove ''b8'' ''np'' ''b8=N'' None (Some Knight),
      mkMove ''b8'' ''np'' ''b8=B'' None (Some Bishop),
      mkMove ''b8'' ''np'' ''b8=R+'' None (Some Rook),
      mkMove ''b8'' ''np'' ''b8=Q+'' None (Some Queen),
      mkMove ''a8'' ''cp'' ''bxa8=N'' (Some Rook) (Some Knight),
      mkMove ''a8'' ''cp'' ''bxa8=B'' (Some Rook) (Some Bishop),
      mkMove ''a8'' ''cp'' ''bxa8=R+'' (Some Rook) (Some Rook),
      mkMove ''a8'' ''cp'' ''bxa8=Q+'' (Some Rook) (Some Queen)]"

definition posPawn :: Chess where
  "posPawn = (mkChess fenPawn
       [(''a8'', mkPiece Black Rook), (''e8'', mkPiece Black King), (''b7'', mkPiece White Pawn),
        (''e1'', mkPiece White King)]
       [((''a8'', White), [''b7'']), ((''e8'', Black), [''a8''])])
     \<lparr>movesOf := (\<lambda>s. if s = ''b7'' then pawnMoves else [])\<rparr>"

definition engPawn :: "string \<Rightarrow> Chess option" where
  "engPawn s = (if s = fenPawn then Some posPawn else None)"

definition rookOnA8 :: PieceInEffect where
  "rookOnA8 = PieceInEffect ''a8'' Rook Black [] []"

definition analysisPawn :: MoveEffect where
  "analysisPawn =
     \<lparr>piece = PieceInEffect ''b7'' Pawn White [] [],
      capturedPiece = None,
      tactics = [\<lparr>tactic' = Fork, targets = [rookOnA8, rookOnA8, rookOnA8, rookOnA8]\<rparr>],
      attacks = [rookOnA8, rookOnA8, rookOnA8, rookOnA8],
      defends = [], type = Normal, defense = Defended,
      hangingPieces = (\<lambda>_. [])
        (Black := [PieceInEffect ''a8'' Rook Black [PieceInEffect ''b7'' Pawn White [] []] []])\<rparr>"
section \<open>Evaluation\<close>

lemmas position_defs =
  mkPiece_def mkMove_def tableOf_def mkChess_def
  fenStale_def fenStaleW_def posStale_def engStale_def
  fenFork_def fenForkW_def fenTaken_def fenTakenW_def knightMoves_def kingMovesG1_def
  posFork_def posForkW_def posTaken_def posTakenW_def engFork_def
  fenBeforeEP_def fenAfterEP_def fenAfterEPW_def moveEP_def posBeforeEP_def posAfterEP_def engEP_def
  fenCheck_def fenCheckB_def posCheck_def engCheck_def
  analysisFork_def analysisTaken_def analysisCheck_def analysisStale_def matchedMove_def
  fenPin_def fenPinB_def posPin_def bishopMoves_def engPin_def analysisPin_def
  fenBeforePromo_def fenAfterPromo_def fenAfterPromoW_def movePromo_def posBeforePromo_def
  posAfterPromo_def engPromo_def analysisPromo_def gameBefore_def gameAfter_def superPromote_def
  analysisEP_def gameBeforeEP_def gameAfterEP_def superEnPassant_def
  fenSkewer_def fenSkewerW_def posSkewer_def rookMoves_def engSkewer_def analysisSkewer_def
  fenPawn_def pawnMoves_def posPawn_def engPawn_def rookOnA8_def analysisPawn_def

lemmas moveInfo_defs =
  moveInfo_def matchMove_def typeOfMove_def stalemate_def defenseOf_def fianchetto_def
  isFianchettoPawnPresent_def squareOfIndex_def isSpace_def colorChar_def DIRECTIONS_def
  ALL_8_DIRECTIONS_def getPiecesAlongRay_def charCodeAt0_def parseIntAt1_def digitOf_def
  numStr_def char_of_def returned_def hangingOf_def Let_def
  buildPieceInEffect.simps scanLoop.simps natStr.simps

section \<open>The resolver\<close>

declare buildPieceInEffect.simps [simp del] scanLoop.simps [simp del] natStr.simps [simp del]

lemma buildLoop_depth0:
  "buildLoop newChess fen' 0 chess c xs as ds = Inr (as, ds)"
  by (induction xs) (auto split: option.splits)

lemma leavesWhere_Nil [simp]: "leavesWhere chess P [] = []"
  by (simp add: leavesWhere_def)

lemma leavesWhere_Cons:
  "leavesWhere chess P (x # xs) =
     (case get chess x of None \<Rightarrow> [] | Some q \<Rightarrow> if P q then [leaf x q] else [])
     @ leavesWhere chess P xs"
  by (simp add: leavesWhere_def)

lemma build_depth0:
  "newChess f = Some chess \<Longrightarrow> buildPieceInEffect newChess sq f 0 = Inr (resolve chess sq 0)"
  by (simp add: buildPieceInEffect.simps resolve_def buildLoop_depth0 split: option.splits)

lemma buildLoop_pos:
  "newChess f = Some chess \<Longrightarrow> 0 < d \<Longrightarrow>
   buildLoop newChess f d chess c xs as ds =
     Inr (as @ leavesWhere chess (\<lambda>q. Piece.color q \<noteq> c) xs,
          ds @ leavesWhere chess (\<lambda>q. Piece.color q = c) xs)"
proof (induction xs arbitrary: as ds)
  case Nil
  then show ?case by simp
next
  case (Cons x xs)
  show ?case
  proof (cases "get chess x")
    case None
    with Cons show ?thesis by (simp add: leavesWhere_Cons)
  next
    case (Some q)
    have b: "buildPieceInEffect newChess x f 0 = Inr (Some (leaf x q))"
      using build_depth0 [of newChess f chess x] Cons.prems(1) Some by (simp add: resolve_def leaf_def)
    show ?thesis
      using Cons.prems Some Cons.IH [OF Cons.prems]
      by (simp add: leavesWhere_Cons b)
  qed
qed

lemma build_resolve:
  "newChess f = Some chess \<Longrightarrow> buildPieceInEffect newChess sq f d = Inr (resolve chess sq d)"
proof (cases "d = 0")
  case True
  assume "newChess f = Some chess"
  then show ?thesis using True build_depth0 by simp
next
  case False
  assume n: "newChess f = Some chess"
  from False have "0 < d" by simp
  then show ?thesis
    using n by (simp add: buildPieceInEffect.simps resolve_def buildLoop_pos split: option.splits)
qed

lemma leavesWhere_at:
  "map at (leavesWhere chess P xs) =
     filter (\<lambda>x. case get chess x of None \<Rightarrow> False | Some q \<Rightarrow> P q) xs"
  by (induction xs) (auto simp: leavesWhere_Cons leaf_def split: option.splits)

lemma leavesWhere_set:
  "e \<in> set (leavesWhere chess P xs) \<Longrightarrow>
     \<exists>q. get chess (at e) = Some q \<and> P q \<and> name e = Piece.type q \<and> color e = Piece.color q
        \<and> attackers e = [] \<and> defenders e = [] \<and> at e \<in> set xs"
proof (induction xs)
  case Nil
  then show ?case by simp
next
  case (Cons x xs)
  from Cons.prems consider
      (hd) q where "get chess x = Some q" "P q" "e = leaf x q"
    | (tl) "e \<in> set (leavesWhere chess P xs)"
    by (cases "get chess x") (auto simp: leavesWhere_Cons split: if_splits)
  then show ?case
  proof cases
    case hd
    then show ?thesis by (simp add: leaf_def)
  next
    case tl
    with Cons.IH show ?thesis by auto
  qed
qed

section \<open>The loops of moveInfo\<close>

lemma moveInfoE:
  assumes "moveInfo newChess pieceSquare f prevFen = Some (Inr (Some r))"
  obtains chess p mo t1 alt where
    "newChess f = Some chess"
    "get chess pieceSquare = Some p"
    "matchMove newChess f prevFen = Inr (mo, t1, capturedPiece r)"
    "buildPieceInEffect newChess pieceSquare f 1 = Inr (Some (piece r))"
    "scanLoop newChess chess f pieceSquare 0 [] (\<lambda>_. []) = Inr (defends r, hangingPieces r)"
    "newChess (replaceTurn (fen chess) (Piece.color p)) = Some alt"
    "attackLoop newChess chess f p (movesOf alt pieceSquare) [] = Inr (attacks r)"
    "(if Piece.type p \<in> set [Bishop, Rook, Queen]
      then pinLoop newChess chess pieceSquare p (defense r) (DIRECTIONS (Piece.type p))
             (if length (attacks r) > 1 then [\<lparr>tactic' = Fork, targets = attacks r\<rparr>] else [])
      else Some (Inr (if length (attacks r) > 1
                      then [\<lparr>tactic' = Fork, targets = attacks r\<rparr>] else [])))
     = Some (Inr (tactics r))"
    "MoveEffect.type r =
       (if fianchetto chess p pieceSquare then Fianchetto
        else if length (attackers (piece r)) > 0 then Attacking
        else if stalemate chess then Stalemate else t1)"
    "defense r = defenseOf (length (attackers (piece r))) (length (defenders (piece r)))"
proof -
  from assms obtain chess where c: "newChess f = Some chess"
    by (auto simp: moveInfo_def split: option.splits)
  from assms c obtain p where p: "get chess pieceSquare = Some p"
    by (auto simp: moveInfo_def split: option.splits)
  from assms c p obtain mo t1 cap where m: "matchMove newChess f prevFen = Inr (mo, t1, cap)"
    by (cases "matchMove newChess f prevFen") (auto simp: moveInfo_def)
  from assms c p m obtain pe where b: "buildPieceInEffect newChess pieceSquare f 1 = Inr (Some pe)"
    by (cases "buildPieceInEffect newChess pieceSquare f 1")
       (auto simp: moveInfo_def split: option.splits)
  from assms c p m b obtain defs hang where
      s: "scanLoop newChess chess f pieceSquare 0 [] (\<lambda>_. []) = Inr (defs, hang)"
    by (cases "scanLoop newChess chess f pieceSquare 0 [] (\<lambda>_. [])")
       (auto simp: moveInfo_def Let_def)
  from assms c p m b s obtain alt where
      al: "newChess (replaceTurn (fen chess) (Piece.color p)) = Some alt"
    by (cases "newChess (replaceTurn (fen chess) (Piece.color p))")
       (auto simp: moveInfo_def Let_def)
  from assms c p m b s al obtain atks where
      at: "attackLoop newChess chess f p (movesOf alt pieceSquare) [] = Inr atks"
    by (cases "attackLoop newChess chess f p (movesOf alt pieceSquare) []")
       (auto simp: moveInfo_def Let_def)
  let ?dfn = "defenseOf (length (attackers pe)) (length (defenders pe))"
  let ?t1 = "if length atks > 1 then [\<lparr>tactic' = Fork, targets = atks\<rparr>] else []"
  let ?pins = "if Piece.type p \<in> set [Bishop, Rook, Queen]
      then pinLoop newChess chess pieceSquare p ?dfn (DIRECTIONS (Piece.type p)) ?t1
      else Some (Inr ?t1)"
  have body: "(case ?pins of None \<Rightarrow> None | Some (Inl e) \<Rightarrow> Some (Inl e)
      | Some (Inr tactics') \<Rightarrow>
          Some (Inr (Some \<lparr>piece = pe, capturedPiece = cap, tactics = tactics', attacks = atks,
             defends = defs,
             type = (if fianchetto chess p pieceSquare then Fianchetto
                     else if length (attackers pe) > 0 then Attacking
                     else if stalemate chess then Stalemate else t1),
             defense = ?dfn, hangingPieces = hang\<rparr>)))
      = Some (Inr (Some r))"
    using assms
    by (simp only: moveInfo_def Let_def c p m b s al at option.case sum.case prod.case)
  then obtain tacs where tc: "?pins = Some (Inr tacs)"
    by (cases ?pins) (auto split: sum.splits)
  with body have r: "r = \<lparr>piece = pe, capturedPiece = cap, tactics = tacs, attacks = atks,
             defends = defs,
             type = (if fianchetto chess p pieceSquare then Fianchetto
                     else if length (attackers pe) > 0 then Attacking
                     else if stalemate chess then Stalemate else t1),
             defense = ?dfn, hangingPieces = hang\<rparr>"
    by simp
  show thesis
  proof (rule that [of chess p mo t1 alt])
    show "newChess f = Some chess" by fact
    show "get chess pieceSquare = Some p" by fact
    show "matchMove newChess f prevFen = Inr (mo, t1, capturedPiece r)" using m r by simp
    show "buildPieceInEffect newChess pieceSquare f 1 = Inr (Some (piece r))" using b r by simp
    show "scanLoop newChess chess f pieceSquare 0 [] (\<lambda>_. []) = Inr (defends r, hangingPieces r)"
      using s r by simp
    show "newChess (replaceTurn (fen chess) (Piece.color p)) = Some alt" by fact
    show "attackLoop newChess chess f p (movesOf alt pieceSquare) [] = Inr (attacks r)"
      using at r by simp
    show "(if Piece.type p \<in> set [Bishop, Rook, Queen]
      then pinLoop newChess chess pieceSquare p (defense r) (DIRECTIONS (Piece.type p))
             (if length (attacks r) > 1 then [\<lparr>tactic' = Fork, targets = attacks r\<rparr>] else [])
      else Some (Inr (if length (attacks r) > 1
                      then [\<lparr>tactic' = Fork, targets = attacks r\<rparr>] else [])))
     = Some (Inr (tactics r))"
      using tc unfolding r by (simp only: MoveEffect.simps)
    show "MoveEffect.type r =
       (if fianchetto chess p pieceSquare then Fianchetto
        else if length (attackers (piece r)) > 0 then Attacking
        else if stalemate chess then Stalemate else t1)"
      unfolding r by (simp only: MoveEffect.simps)
    show "defense r = defenseOf (length (attackers (piece r))) (length (defenders (piece r)))"
      unfolding r by (simp only: MoveEffect.simps)
  qed
qed

lemma moveInfo_loaded:
  assumes "moveInfo newChess pieceSquare f prevFen = Some (Inr (Some r))"
  shows "\<exists>chess p. newChess f = Some chess \<and> get chess pieceSquare = Some p"
proof (rule moveInfoE [OF assms])
  fix chess p
  assume "newChess f = Some chess" "get chess pieceSquare = Some p"
  then show ?thesis by blast
qed

lemma moveInfo_parts:
  assumes "moveInfo newChess pieceSquare f prevFen = Some (Inr (Some r))"
    and c: "newChess f = Some chess"
    and p: "get chess pieceSquare = Some p"
  shows "(\<exists>mo t1. matchMove newChess f prevFen = Inr (mo, t1, capturedPiece r)
          \<and> MoveEffect.type r =
              (if fianchetto chess p pieceSquare then Fianchetto
               else if length (attackers (piece r)) > 0 then Attacking
               else if stalemate chess then Stalemate else t1))
    \<and> buildPieceInEffect newChess pieceSquare f 1 = Inr (Some (piece r))
    \<and> scanLoop newChess chess f pieceSquare 0 [] (\<lambda>_. []) = Inr (defends r, hangingPieces r)
    \<and> (\<exists>alt. newChess (replaceTurn (fen chess) (Piece.color p)) = Some alt
          \<and> attackLoop newChess chess f p (movesOf alt pieceSquare) [] = Inr (attacks r))
    \<and> (if Piece.type p \<in> set [Bishop, Rook, Queen]
      then pinLoop newChess chess pieceSquare p (defense r) (DIRECTIONS (Piece.type p))
             (if length (attacks r) > 1 then [\<lparr>tactic' = Fork, targets = attacks r\<rparr>] else [])
      else Some (Inr (if length (attacks r) > 1
                      then [\<lparr>tactic' = Fork, targets = attacks r\<rparr>] else [])))
     = Some (Inr (tactics r))
    \<and> defense r = defenseOf (length (attackers (piece r))) (length (defenders (piece r)))"
proof (rule moveInfoE [OF assms(1)])
  fix chess' p' mo t1 alt
  assume c': "newChess f = Some chess'" and p': "get chess' pieceSquare = Some p'"
    and 1: "matchMove newChess f prevFen = Inr (mo, t1, capturedPiece r)"
    and 2: "buildPieceInEffect newChess pieceSquare f 1 = Inr (Some (piece r))"
    and 3: "scanLoop newChess chess' f pieceSquare 0 [] (\<lambda>_. []) = Inr (defends r, hangingPieces r)"
    and 4: "newChess (replaceTurn (fen chess') (Piece.color p')) = Some alt"
    and 5: "attackLoop newChess chess' f p' (movesOf alt pieceSquare) [] = Inr (attacks r)"
    and 6: "(if Piece.type p' \<in> set [Bishop, Rook, Queen]
    then pinLoop newChess chess' pieceSquare p' (defense r) (DIRECTIONS (Piece.type p'))
           (if length (attacks r) > 1 then [\<lparr>tactic' = Fork, targets = attacks r\<rparr>] else [])
    else Some (Inr (if length (attacks r) > 1
                    then [\<lparr>tactic' = Fork, targets = attacks r\<rparr>] else [])))
   = Some (Inr (tactics r))"
    and 7: "MoveEffect.type r =
     (if fianchetto chess' p' pieceSquare then Fianchetto
      else if length (attackers (piece r)) > 0 then Attacking
      else if stalemate chess' then Stalemate else t1)"
    and 8: "defense r = defenseOf (length (attackers (piece r))) (length (defenders (piece r)))"
  from c c' have ce: "chess' = chess" by simp
  with p p' have pe: "p' = p" by simp
  show ?thesis
    using 1 2 3 4 5 6 7 8 unfolding ce pe by (intro conjI exI) assumption+
qed

lemmas moveInfo_match = moveInfo_parts [THEN conjunct1]
lemmas moveInfo_piece = moveInfo_parts [THEN conjunct2, THEN conjunct1]
lemmas moveInfo_scan = moveInfo_parts [THEN conjunct2, THEN conjunct2, THEN conjunct1]
lemmas moveInfo_attacks = moveInfo_parts [THEN conjunct2, THEN conjunct2, THEN conjunct2, THEN conjunct1]
lemmas moveInfo_tactics =
  moveInfo_parts [THEN conjunct2, THEN conjunct2, THEN conjunct2, THEN conjunct2, THEN conjunct1]
lemmas moveInfo_defense =
  moveInfo_parts [THEN conjunct2, THEN conjunct2, THEN conjunct2, THEN conjunct2, THEN conjunct2]

lemma scanLoop_eq:
  assumes "newChess f = Some chess"
  shows "scanLoop newChess chess f pieceSquare i defs hang =
     Inr (defs @ filter (\<lambda>e. find (\<lambda>d. at d = pieceSquare) (defenders e) \<noteq> None \<and> name e \<noteq> King)
                   (scanned chess pieceSquare i),
          \<lambda>c. hang c @ filter (\<lambda>e. attackers e \<noteq> [] \<and> defenders e = [] \<and> color e = c)
                          (scanned chess pieceSquare i))"
proof (induction "64 - i" arbitrary: i defs hang)
  case 0
  then have "\<not> i < 64" by simp
  then show ?case by (subst scanLoop.simps) (simp add: scanned_def)
next
  case (Suc n)
  then have lt: "i < 64" and n: "n = 64 - Suc i" by simp_all
  have sc: "scanned chess pieceSquare i =
      (if squareOfIndex i = pieceSquare then []
       else (case resolve chess (squareOfIndex i) 1 of None \<Rightarrow> [] | Some e \<Rightarrow> [e]))
      @ scanned chess pieceSquare (Suc i)"
    using lt by (simp add: scanned_def upt_conv_Cons)
  note IH = Suc.hyps(1) [OF n]
  note b = build_resolve [of newChess f chess "squareOfIndex i" 1, OF assms]
  show ?case
  proof (cases "get chess (squareOfIndex i)")
    case None
    then have "resolve chess (squareOfIndex i) 1 = None" by (simp add: resolve_def)
    with None lt show ?thesis
      by (subst scanLoop.simps) (simp add: IH sc)
  next
    case (Some q)
    then obtain e where e: "resolve chess (squareOfIndex i) 1 = Some e" "color e = Piece.color q"
      by (simp add: resolve_def)
    show ?thesis
    proof (cases "squareOfIndex i = pieceSquare")
      case True
      with Some lt show ?thesis
        by (subst scanLoop.simps) (simp add: IH sc)
    next
      case False
      with Some lt e b show ?thesis
        by (subst scanLoop.simps)
           (auto simp add: IH sc fun_eq_iff)
    qed
  qed
qed

lemma attackLoop_eq:
  assumes "newChess f = Some chess"
  shows "attackLoop newChess chess f p ms acc =
     Inr (acc @ leavesWhere chess (\<lambda>q. Piece.color q \<noteq> Piece.color p) (map to ms))"
proof (induction ms arbitrary: acc)
  case Nil
  then show ?case by simp
next
  case (Cons m ms)
  note b = build_depth0 [of newChess f chess "to m", OF assms]
  show ?case
    by (cases "get chess (to m)")
       (simp_all add: Cons.IH b resolve_def leavesWhere_Cons leaf_def)
qed

section \<open>The board scan\<close>

lemma in_optional_entry:
  "e \<in> set (if A then [] else (case ro of None \<Rightarrow> [] | Some e' \<Rightarrow> [e'])) \<longleftrightarrow> \<not> A \<and> ro = Some e"
  by (cases ro) auto

lemma scanned_iff:
  "e \<in> set (scanned chess pieceSquare 0) \<longleftrightarrow>
     (\<exists>j < 64. squareOfIndex j \<noteq> pieceSquare \<and> resolve chess (squareOfIndex j) 1 = Some e)"
proof -
  have "e \<in> set (scanned chess pieceSquare 0) \<longleftrightarrow>
      (\<exists>j \<in> set [0..<64]. e \<in> set (if squareOfIndex j = pieceSquare then []
          else (case resolve chess (squareOfIndex j) 1 of None \<Rightarrow> [] | Some e \<Rightarrow> [e])))"
    unfolding scanned_def set_concat set_map by blast
  also have "\<dots> \<longleftrightarrow>
      (\<exists>j < 64. squareOfIndex j \<noteq> pieceSquare \<and> resolve chess (squareOfIndex j) 1 = Some e)"
    unfolding in_optional_entry by auto
  finally show ?thesis .
qed

lemma resolve_Some:
  "resolve chess sq d = Some e \<Longrightarrow>
     \<exists>p. get chess sq = Some p \<and> at e = sq \<and> name e = Piece.type p \<and> color e = Piece.color p"
  by (auto simp: resolve_def split: option.splits)

lemma hanging_eq:
  assumes "moveInfo newChess pieceSquare f prevFen = Some (Inr (Some r))"
    and "newChess f = Some chess"
  shows "hangingPieces r c =
     filter (\<lambda>e. attackers e \<noteq> [] \<and> defenders e = [] \<and> color e = c) (scanned chess pieceSquare 0)"
    and "defends r =
     filter (\<lambda>e. find (\<lambda>d. at d = pieceSquare) (defenders e) \<noteq> None \<and> name e \<noteq> King)
       (scanned chess pieceSquare 0)"
proof -
  from assms(1) obtain chess' where
      c: "newChess f = Some chess'"
      and s: "scanLoop newChess chess' f pieceSquare 0 [] (\<lambda>_. []) = Inr (defends r, hangingPieces r)"
    by (rule moveInfoE)
  from c assms(2) have "chess' = chess" by simp
  with s scanLoop_eq [of newChess f chess pieceSquare 0 "[]" "\<lambda>_. []"] assms(2)
  have d: "defends r = filter (\<lambda>e. find (\<lambda>d. at d = pieceSquare) (defenders e) \<noteq> None \<and> name e \<noteq> King)
       (scanned chess pieceSquare 0)"
    and h: "hangingPieces r = (\<lambda>c. filter (\<lambda>e. attackers e \<noteq> [] \<and> defenders e = [] \<and> color e = c)
       (scanned chess pieceSquare 0))"
    by simp_all
  from h show "hangingPieces r c =
     filter (\<lambda>e. attackers e \<noteq> [] \<and> defenders e = [] \<and> color e = c) (scanned chess pieceSquare 0)"
    by simp
  from d show "defends r =
     filter (\<lambda>e. find (\<lambda>d. at d = pieceSquare) (defenders e) \<noteq> None \<and> name e \<noteq> King)
       (scanned chess pieceSquare 0)"
    by simp
qed

lemma hanging_iff:
  assumes "moveInfo newChess pieceSquare f prevFen = Some (Inr (Some r))"
    and "newChess f = Some chess"
    and "i < 64" and "squareOfIndex i \<noteq> pieceSquare"
    and "get chess (squareOfIndex i) = Some p"
    and "buildPieceInEffect newChess (squareOfIndex i) f 1 = Inr (Some eff)"
  shows "eff \<in> set (hangingPieces r c)
      \<longleftrightarrow> attackers eff \<noteq> [] \<and> defenders eff = [] \<and> c = Piece.color p"
proof -
  from assms(6) build_resolve [of newChess f chess "squareOfIndex i" 1] assms(2)
  have res: "resolve chess (squareOfIndex i) 1 = Some eff" by simp
  with assms(3,4) have mem: "eff \<in> set (scanned chess pieceSquare 0)"
    unfolding scanned_iff by blast
  from resolve_Some [OF res] assms(5) have col: "color eff = Piece.color p" by auto
  show ?thesis
    using mem col by (auto simp: hanging_eq(1) [OF assms(1,2)])
qed

lemma hanging_entry:
  assumes "moveInfo newChess pieceSquare f prevFen = Some (Inr (Some r))"
    and "newChess f = Some chess"
    and "e \<in> set (hangingPieces r c)"
  shows "\<exists>i < 64. at e = squareOfIndex i" and "at e \<noteq> pieceSquare"
    and "\<exists>p. get chess (at e) = Some p \<and> Piece.color p = c"
    and "buildPieceInEffect newChess (at e) f 1 = Inr (Some e)"
proof -
  from assms(3) have e: "e \<in> set (scanned chess pieceSquare 0)" and c: "color e = c"
    by (auto simp: hanging_eq(1) [OF assms(1,2)])
  from e obtain j where j: "j < 64" "squareOfIndex j \<noteq> pieceSquare"
      "resolve chess (squareOfIndex j) 1 = Some e"
    unfolding scanned_iff by blast
  from resolve_Some [OF j(3)] obtain p where
      p: "get chess (squareOfIndex j) = Some p" "at e = squareOfIndex j" "color e = Piece.color p"
    by auto
  show "\<exists>i < 64. at e = squareOfIndex i" using j(1) p(2) by blast
  show "at e \<noteq> pieceSquare" using j(2) p(2) by simp
  show "\<exists>p. get chess (at e) = Some p \<and> Piece.color p = c" using p c by simp
  show "buildPieceInEffect newChess (at e) f 1 = Inr (Some e)"
    using build_resolve [of newChess f chess "at e" 1] assms(2) j(3) p(2) by simp
qed

section \<open>The tactics list\<close>

lemma pinLoop_appends:
  "pinLoop newChess chess pieceSquare p dfn dirs acc = Some (Inr res) \<Longrightarrow>
     \<exists>extra. res = acc @ extra \<and> (\<forall>t \<in> set extra. tactic' t \<noteq> Fork)"
proof (induction dirs arbitrary: acc)
  case Nil
  then show ?case by simp
next
  case (Cons d dirs)
  obtain dx dy where d: "d = (dx, dy)" by (cases d)
  from Cons.prems d obtain acc' where
      step: "pinLoop newChess chess pieceSquare p dfn dirs acc' = Some (Inr res)"
      and acc': "acc' = acc \<or> (\<exists>t. acc' = acc @ [t] \<and> tactic' t \<noteq> Fork)"
    by (auto split: option.splits sum.splits list.splits if_splits)
  from Cons.IH [OF step] obtain extra where
      e: "res = acc' @ extra" "\<forall>t \<in> set extra. tactic' t \<noteq> Fork" by blast
  from acc' show ?case
  proof
    assume "acc' = acc"
    with e show ?thesis by blast
  next
    assume "\<exists>t. acc' = acc @ [t] \<and> tactic' t \<noteq> Fork"
    then obtain t where t: "acc' = acc @ [t]" "tactic' t \<noteq> Fork" by blast
    with e have "res = acc @ (t # extra) \<and> (\<forall>u \<in> set (t # extra). tactic' u \<noteq> Fork)" by simp
    then show ?thesis by blast
  qed
qed

lemma tactics_eq:
  assumes "moveInfo newChess pieceSquare f prevFen = Some (Inr (Some r))"
  shows "\<exists>extra. tactics r =
       (if length (attacks r) > 1 then [\<lparr>tactic' = Fork, targets = attacks r\<rparr>] else []) @ extra
     \<and> (\<forall>t \<in> set extra. tactic' t \<noteq> Fork)"
proof -
  let ?t1 = "if length (attacks r) > 1 then [\<lparr>tactic' = Fork, targets = attacks r\<rparr>] else []"
  from assms obtain chess p where
      t: "(if Piece.type p \<in> set [Bishop, Rook, Queen]
      then pinLoop newChess chess pieceSquare p (defense r) (DIRECTIONS (Piece.type p)) ?t1
      else Some (Inr ?t1)) = Some (Inr (tactics r))"
    by (rule moveInfoE)
  show ?thesis
  proof (cases "Piece.type p \<in> set [Bishop, Rook, Queen]")
    case True
    with t have "pinLoop newChess chess pieceSquare p (defense r) (DIRECTIONS (Piece.type p)) ?t1
        = Some (Inr (tactics r))"
      by (simp only: if_True)
    from pinLoop_appends [OF this] show ?thesis .
  next
    case False
    with t have "tactics r = ?t1 @ [] \<and> (\<forall>t \<in> set []. tactic' t \<noteq> Fork)"
      by (simp only: if_False) simp
    then show ?thesis by blast
  qed
qed

section \<open>Depth of the descriptors\<close>

lemma build0_flat:
  "buildPieceInEffect newChess sq f 0 = Inr (Some pe) \<Longrightarrow>
     attackers pe = [] \<and> defenders pe = [] \<and> at pe = sq"
  by (auto simp: buildPieceInEffect.simps buildLoop_depth0 split: option.splits)

lemma depthBounded_flat: "attackers d = [] \<Longrightarrow> defenders d = [] \<Longrightarrow> depthBounded d"
  by (simp add: depthBounded_def)

lemma resolve_bounded: "resolve chess sq d = Some pe \<Longrightarrow> depthBounded pe"
  using leavesWhere_set
  by (fastforce simp: resolve_def depthBounded_def split: option.splits if_splits)

lemma build_bounded:
  assumes "buildPieceInEffect newChess sq f d = Inr (Some pe)"
  shows "depthBounded pe"
proof (cases "newChess f")
  case None
  with assms show ?thesis by (simp add: buildPieceInEffect.simps)
next
  case (Some chess)
  from build_resolve [of newChess f chess sq d] Some assms
  have "resolve chess sq d = Some pe" by simp
  then show ?thesis by (rule resolve_bounded)
qed

lemma rayLoop_flat:
  assumes "rayLoop newChess chess f dx dy x y acc = Some (Inr res)"
    and "\<forall>e \<in> set acc. attackers e = [] \<and> defenders e = []"
  shows "\<forall>e \<in> set res. attackers e = [] \<and> defenders e = []"
proof -
  let ?P = "\<lambda>(nc :: string \<Rightarrow> Chess option) (c :: Chess) (f :: string) (dx :: int) (dy :: int)
      (x :: int) (y :: int) (acc :: PieceInEffect list) (r :: error + PieceInEffect list).
      \<forall>res. r = Inr res \<longrightarrow> (\<forall>e \<in> set acc. attackers e = [] \<and> defenders e = [])
        \<longrightarrow> (\<forall>e \<in> set res. attackers e = [] \<and> defenders e = [])"
  have "?P newChess chess f dx dy x y acc (Inr res)"
  proof (rule rayLoop.raw_induct
      [where xa = "(((((((newChess, chess), f), dx), dy), x), y), acc)" and ya = "Inr res"
         and P = ?P, unfolded prod.case])
    show "rayLoop newChess chess f dx dy x y acc = Some (Inr res)" by fact
  next
    fix loop :: "(string \<Rightarrow> Chess option) \<Rightarrow> Chess \<Rightarrow> string \<Rightarrow> int \<Rightarrow> int \<Rightarrow> int \<Rightarrow> int
        \<Rightarrow> PieceInEffect list \<Rightarrow> (error + PieceInEffect list) option"
    fix nc c g ex ey u v ps r
    assume IH: "\<And>nc c g ex ey u v ps r. loop nc c g ex ey u v ps = Some r \<Longrightarrow> ?P nc c g ex ey u v ps r"
    assume body: "(if 97 \<le> u \<and> u \<le> 104 \<and> 1 \<le> v \<and> v \<le> 8
      then case get c (char_of u # numStr v) of
           None \<Rightarrow> loop nc c g ex ey (u + ex) (v + ey) ps
           | Some p \<Rightarrow>
               case buildPieceInEffect nc (char_of u # numStr v) g 0 of
               Inl e \<Rightarrow> Some (Inl e) | Inr None \<Rightarrow> Some (Inr ps)
               | Inr (Some pieceEffect) \<Rightarrow>
                   if length (ps @ [pieceEffect]) = 2
                   then Some (Inr (ps @ [pieceEffect]))
                   else loop nc c g ex ey (u + ex) (v + ey) (ps @ [pieceEffect])
      else Some (Inr ps)) = Some r"
    show "?P nc c g ex ey u v ps r"
    proof (intro allI impI)
      fix res
      assume r: "r = Inr res" and ps: "\<forall>e \<in> set ps. attackers e = [] \<and> defenders e = []"
      from body r consider
          (stop) "res = ps"
        | (skip) "loop nc c g ex ey (u + ex) (v + ey) ps = Some (Inr res)"
        | (last) pe where "buildPieceInEffect nc (char_of u # numStr v) g 0 = Inr (Some pe)"
            "res = ps @ [pe]"
        | (more) pe where "buildPieceInEffect nc (char_of u # numStr v) g 0 = Inr (Some pe)"
            "loop nc c g ex ey (u + ex) (v + ey) (ps @ [pe]) = Some (Inr res)"
      proof (cases "97 \<le> u \<and> u \<le> 104 \<and> 1 \<le> v \<and> v \<le> 8")
        case False
        with body r have "res = ps" by simp
        then show ?thesis by (rule stop)
      next
        case inb: True
        show ?thesis
        proof (cases "get c (char_of u # numStr v)")
          case None
          with inb body r have "loop nc c g ex ey (u + ex) (v + ey) ps = Some (Inr res)"
            by (simp)
          then show ?thesis by (rule skip)
        next
          case (Some p)
          show ?thesis
          proof (cases "buildPieceInEffect nc (char_of u # numStr v) g 0")
            case (Inl e)
            with inb Some body r show ?thesis by (simp)
          next
            case (Inr po)
            show ?thesis
            proof (cases po)
              case None
              with inb Some Inr body r have "res = ps" by (simp)
              then show ?thesis by (rule stop)
            next
              case pe: (Some pe)
              show ?thesis
              proof (cases "length (ps @ [pe]) = 2")
                case True
                with inb Some Inr pe body r have "res = ps @ [pe]"
                  by (simp)
                with Inr pe show ?thesis by (intro last) simp_all
              next
                case False
                with inb Some Inr pe body r
                have "loop nc c g ex ey (u + ex) (v + ey) (ps @ [pe]) = Some (Inr res)"
                  by (simp)
                with Inr pe show ?thesis by (intro more) simp_all
              qed
            qed
          qed
        qed
      qed
      then show "\<forall>e \<in> set res. attackers e = [] \<and> defenders e = []"
      proof cases
        case stop
        with ps show ?thesis by simp
      next
        case skip
        from IH [OF skip] ps show ?thesis by blast
      next
        case last
        with ps build0_flat [OF last(1)] show ?thesis by simp
      next
        case more
        from ps build0_flat [OF more(1)]
        have "\<forall>e \<in> set (ps @ [pe]). attackers e = [] \<and> defenders e = []" by simp
        with IH [OF more(2)] show ?thesis by blast
      qed
    qed
  qed
  with assms(2) show ?thesis by blast
qed

lemma getPiecesAlongRay_flat:
  assumes "getPiecesAlongRay newChess chess sq dx dy f = Some (Inr res)"
  shows "\<forall>e \<in> set res. attackers e = [] \<and> defenders e = []"
proof (cases "charCodeAt0 sq")
  case None
  with assms show ?thesis by (simp add: getPiecesAlongRay_def)
next
  case cx: (Some cx)
  show ?thesis
  proof (cases "parseIntAt1 sq")
    case None
    with cx assms show ?thesis by (simp add: getPiecesAlongRay_def)
  next
    case (Some cy)
    with cx assms have "rayLoop newChess chess f dx dy (cx + dx) (cy + dy) [] = Some (Inr res)"
      by (simp add: getPiecesAlongRay_def)
    from rayLoop_flat [OF this] show ?thesis by simp
  qed
qed

lemma pinLoop_flat:
  assumes "pinLoop newChess chess pieceSquare p dfn dirs acc = Some (Inr res)"
    and "\<forall>t \<in> set acc. \<forall>e \<in> set (targets t). attackers e = [] \<and> defenders e = []"
  shows "\<forall>t \<in> set res. \<forall>e \<in> set (targets t). attackers e = [] \<and> defenders e = []"
  using assms
proof (induction dirs arbitrary: acc)
  case Nil
  then show ?case by simp
next
  case (Cons d dirs)
  obtain dx dy where d: "d = (dx, dy)" by (cases d)
  from Cons.prems(1) d obtain ray where
      ray: "getPiecesAlongRay newChess chess pieceSquare dx dy (fen chess) = Some (Inr ray)"
    by (auto split: option.splits sum.splits)
  note fl = getPiecesAlongRay_flat [OF ray]
  from Cons.prems(1) d ray obtain acc' where
      step: "pinLoop newChess chess pieceSquare p dfn dirs acc' = Some (Inr res)"
      and acc': "acc' = acc \<or> (\<exists>t. acc' = acc @ [t] \<and> set (targets t) \<subseteq> set ray)"
    by (auto split: list.splits if_splits)
  have "\<forall>t \<in> set acc'. \<forall>e \<in> set (targets t). attackers e = [] \<and> defenders e = []"
  proof (rule disjE [OF acc'])
    assume "acc' = acc"
    with Cons.prems(2) show ?thesis by simp
  next
    assume "\<exists>t. acc' = acc @ [t] \<and> set (targets t) \<subseteq> set ray"
    then obtain t where t: "acc' = acc @ [t]" "set (targets t) \<subseteq> set ray" by auto
    from t(2) fl have "\<forall>e \<in> set (targets t). attackers e = [] \<and> defenders e = []" by blast
    with t(1) Cons.prems(2) show ?thesis by simp
  qed
  from Cons.IH [OF step this] show ?case .
qed

lemma matchMove_captured:
  assumes "matchMove newChess f prevFen = Inr (mo, t, Some c)"
  obtains pf prevChess m cap cp where
      "prevFen = Some pf" "pf \<noteq> []" "newChess pf = Some prevChess"
      "find (\<lambda>m. moveThenFen prevChess m = Some f) (moves prevChess) = Some m"
      "mo = Some m" "t = typeOfMove m"
      "get prevChess (to m) = Some cap"
      "buildPieceInEffect newChess (to m) pf 0 = Inr (Some cp)"
      "c = PieceInEffect (to m) (Piece.type cap) (color cp) (attackers cp) (defenders cp)"
proof (cases prevFen)
  case None
  with assms show ?thesis by (simp add: matchMove_def)
next
  case (Some pf)
  show ?thesis
  proof (cases "pf = []")
    case True
    with Some assms show ?thesis by (simp add: matchMove_def)
  next
    case ne: False
    show ?thesis
    proof (cases "newChess pf")
      case None
      with Some ne assms show ?thesis by (simp add: matchMove_def)
    next
      case pc: (Some prevChess)
      show ?thesis
      proof (cases "find (\<lambda>m. moveThenFen prevChess m = Some f) (moves prevChess)")
        case None
        with Some ne pc assms show ?thesis by (simp add: matchMove_def)
      next
        case fm: (Some m)
        show ?thesis
        proof (cases "get prevChess (to m)")
          case None
          with Some ne pc fm assms show ?thesis by (simp add: matchMove_def)
        next
          case cap: (Some cap)
          show ?thesis
          proof (cases "buildPieceInEffect newChess (to m) pf 0")
            case (Inl e)
            with Some ne pc fm cap assms show ?thesis by (simp add: matchMove_def)
          next
            case (Inr po)
            show ?thesis
            proof (cases po)
              case None
              with Inr Some ne pc fm cap assms show ?thesis by (simp add: matchMove_def)
            next
              case cp: (Some cp)
              show ?thesis
              proof (rule that [of pf prevChess m cap cp])
                show "prevFen = Some pf" by fact
                show "pf \<noteq> []" by fact
                show "newChess pf = Some prevChess" by fact
                show "find (\<lambda>m. moveThenFen prevChess m = Some f) (moves prevChess) = Some m" by fact
                show "get prevChess (to m) = Some cap" by fact
                show "buildPieceInEffect newChess (to m) pf 0 = Inr (Some cp)"
                  using Inr cp by simp
                from cp Inr Some ne pc fm cap assms
                show "mo = Some m" "t = typeOfMove m"
                  "c = PieceInEffect (to m) (Piece.type cap) (color cp) (attackers cp) (defenders cp)"
                  by (simp_all add: matchMove_def)
              qed
            qed
          qed
        qed
      qed
    qed
  qed
qed

lemma matchMove_flat:
  assumes "matchMove newChess f prevFen = Inr (mo, t, Some c)"
  shows "attackers c = [] \<and> defenders c = []"
proof (rule matchMove_captured [OF assms])
  fix pf m cp cap
  assume b: "buildPieceInEffect newChess (to m) pf 0 = Inr (Some cp)"
    and c: "c = PieceInEffect (to m) (Piece.type cap) (color cp) (attackers cp) (defenders cp)"
  from build0_flat [OF b] c show ?thesis by simp
qed

section \<open>Evaluations on the concrete positions\<close>

lemma eval_fork: "moveInfo engFork ''c7'' fenFork None = Some (Inr (Some analysisFork))"
  by (simp add: moveInfo_defs position_defs)

lemma eval_taken: "moveInfo engFork ''a8'' fenTaken (Some fenForkW) = Some (Inr (Some analysisTaken))"
  by (simp add: moveInfo_defs position_defs)

lemma eval_check: "moveInfo engCheck ''h8'' fenCheck None = Some (Inr (Some analysisCheck))"
  by (simp add: moveInfo_defs position_defs)

lemma eval_stale: "moveInfo engStale ''b6'' fenStale None = Some (Inr (Some analysisStale))"
  by (simp add: moveInfo_defs position_defs)

section \<open>The ray scan returns\<close>

lemma off_board_within_9:
  assumes "dx \<noteq> 0 \<or> dy \<noteq> (0::int)"
  shows "\<not> onBoard x y \<or> \<not> onBoard (x + 8 * dx) (y + 8 * dy)"
  using assms unfolding onBoard_def by (cases "dx > 0"; cases "dy > 0") auto

lemma rayLoop_returns_aux:
  assumes "\<exists>k < n. \<not> onBoard (x + int k * dx) (y + int k * dy)"
  shows "\<exists>res. rayLoop newChess chess f dx dy x y acc = Some res"
  using assms
proof (induction n arbitrary: x y acc)
  case 0
  then show ?case by simp
next
  case (Suc n)
  show ?case
  proof (cases "onBoard x y")
    case False
    then have nb: "(97 \<le> x \<and> x \<le> 104 \<and> 1 \<le> y \<and> y \<le> 8) = False"
      by (simp add: onBoard_def)
    show ?thesis
      by (subst rayLoop.simps) (simp only: nb if_False, blast)
  next
    case True
    from Suc.prems obtain k where k: "k < Suc n" "\<not> onBoard (x + int k * dx) (y + int k * dy)"
      by blast
    with True obtain j where j: "k = Suc j" by (cases k) auto
    with k have "j < n" "\<not> onBoard ((x + dx) + int j * dx) ((y + dy) + int j * dy)"
      by (simp_all add: algebra_simps)
    then have ex: "\<exists>k < n. \<not> onBoard ((x + dx) + int k * dx) ((y + dy) + int k * dy)" by blast
    note IH = Suc.IH [OF ex]
    from True have inb: "97 \<le> x \<and> x \<le> 104 \<and> 1 \<le> y \<and> y \<le> 8" by (simp add: onBoard_def)
    show ?thesis
    proof (cases "get chess (char_of x # numStr y)")
      case None
      with inb IH [of acc] show ?thesis by (subst rayLoop.simps) simp
    next
      case (Some p)
      show ?thesis
      proof (cases "buildPieceInEffect newChess (char_of x # numStr y) f 0")
        case (Inl e)
        with inb Some show ?thesis by (subst rayLoop.simps) simp
      next
        case (Inr po)
        show ?thesis
        proof (cases po)
          case None
          with inb Some Inr show ?thesis by (subst rayLoop.simps) simp
        next
          case pe: (Some pe)
          with inb Some Inr IH [of "acc @ [pe]"] show ?thesis
            by (subst rayLoop.simps) simp
        qed
      qed
    qed
  qed
qed

lemma rayLoop_returns:
  assumes "dx \<noteq> 0 \<or> dy \<noteq> 0"
  shows "\<exists>res. rayLoop newChess chess f dx dy x y acc = Some res"
proof (rule rayLoop_returns_aux [of 9])
  from off_board_within_9 [OF assms, of x y]
  show "\<exists>k < 9. \<not> onBoard (x + int k * dx) (y + int k * dy)"
  proof
    assume "\<not> onBoard x y"
    then have "\<not> onBoard (x + int 0 * dx) (y + int 0 * dy)" by simp
    then show ?thesis by (intro exI [of _ 0]) simp
  next
    assume "\<not> onBoard (x + 8 * dx) (y + 8 * dy)"
    then have "\<not> onBoard (x + int 8 * dx) (y + int 8 * dy)" by simp
    then show ?thesis by (intro exI [of _ 8]) simp
  qed
qed

lemma getPiecesAlongRay_returns:
  assumes "dx \<noteq> 0 \<or> dy \<noteq> 0"
  shows "\<exists>res. getPiecesAlongRay newChess chess sq dx dy f = Some res"
  using rayLoop_returns [OF assms]
  by (auto simp: getPiecesAlongRay_def split: option.splits)

lemma pinLoop_returns:
  assumes "\<forall>d \<in> set dirs. fst d \<noteq> 0 \<or> snd d \<noteq> 0"
  shows "\<exists>res. pinLoop newChess chess pieceSquare p dfn dirs acc = Some res"
  using assms
proof (induction dirs arbitrary: acc)
  case Nil
  then show ?case by simp
next
  case (Cons d dirs)
  obtain dx dy where d: "d = (dx, dy)" by (cases d)
  with Cons.prems have nz: "dx \<noteq> 0 \<or> dy \<noteq> 0" by simp
  from Cons.prems have rest: "\<forall>d \<in> set dirs. fst d \<noteq> 0 \<or> snd d \<noteq> 0" by simp
  from getPiecesAlongRay_returns [OF nz] obtain ray where
      ray: "getPiecesAlongRay newChess chess pieceSquare dx dy (fen chess) = Some ray" by blast
  show ?case
  proof (cases ray)
    case (Inl e)
    with d ray show ?thesis by simp
  next
    case (Inr ps)
    show ?thesis
    proof (cases ps)
      case Nil
      with d ray Inr Cons.IH [OF rest] show ?thesis by simp
    next
      case c1: (Cons a as)
      show ?thesis
      proof (cases as)
        case Nil
        with c1 d ray Inr Cons.IH [OF rest] show ?thesis by simp
      next
        case (Cons b bs)
        with c1 d ray Inr Cons.IH [OF rest] show ?thesis by simp
      qed
    qed
  qed
qed

lemma DIRECTIONS_nonzero: "\<forall>d \<in> set (DIRECTIONS t). fst d \<noteq> 0 \<or> snd d \<noteq> 0"
  by (simp add: DIRECTIONS_def ALL_8_DIRECTIONS_def)

lemma moveInfo_returns: "\<exists>res. moveInfo newChess pieceSquare f prevFen = Some res"
proof (cases "newChess f")
  case None
  then show ?thesis by (simp add: moveInfo_def)
next
  case c: (Some chess)
  show ?thesis
  proof (cases "get chess pieceSquare")
    case None
    with c show ?thesis by (simp add: moveInfo_def)
  next
    case p: (Some p)
    show ?thesis
    proof (cases "matchMove newChess f prevFen")
      case (Inl e)
      with c p show ?thesis by (simp add: moveInfo_def)
    next
      case (Inr mres)
      obtain mo t1 cap where m: "matchMove newChess f prevFen = Inr (mo, t1, cap)"
        using Inr by (cases mres) auto
      show ?thesis
      proof (cases "buildPieceInEffect newChess pieceSquare f 1")
        case (Inl e)
        with c p m show ?thesis by (simp add: moveInfo_def)
      next
        case (Inr po)
        show ?thesis
        proof (cases po)
          case None
          with Inr c p m show ?thesis by (simp add: moveInfo_def)
        next
          case (Some pe)
          with Inr have b: "buildPieceInEffect newChess pieceSquare f 1 = Inr (Some pe)" by simp
          show ?thesis
          proof (cases "scanLoop newChess chess f pieceSquare 0 [] (\<lambda>_. [])")
            case (Inl e)
            with c p m b show ?thesis by (simp add: moveInfo_def Let_def)
          next
            case (Inr sres)
            obtain defs hang where
                s: "scanLoop newChess chess f pieceSquare 0 [] (\<lambda>_. []) = Inr (defs, hang)"
              using Inr by (cases sres) auto
            show ?thesis
            proof (cases "newChess (replaceTurn (fen chess) (Piece.color p))")
              case None
              with c p m b s show ?thesis by (simp add: moveInfo_def Let_def)
            next
              case al: (Some alt)
              show ?thesis
              proof (cases "attackLoop newChess chess f p (movesOf alt pieceSquare) []")
                case (Inl e)
                with c p m b s al show ?thesis by (simp add: moveInfo_def Let_def)
              next
                case at: (Inr atks)
                let ?dfn = "defenseOf (length (attackers pe)) (length (defenders pe))"
                let ?t1 = "if length atks > 1 then [\<lparr>tactic' = Fork, targets = atks\<rparr>] else []"
                let ?pins = "if Piece.type p \<in> set [Bishop, Rook, Queen]
                    then pinLoop newChess chess pieceSquare p ?dfn (DIRECTIONS (Piece.type p)) ?t1
                    else Some (Inr ?t1)"
                obtain pres where pr: "?pins = Some pres"
                  using pinLoop_returns [OF DIRECTIONS_nonzero,
                      of newChess chess pieceSquare p ?dfn "Piece.type p" ?t1]
                  by (cases "Piece.type p \<in> set [Bishop, Rook, Queen]") auto
                have "moveInfo newChess pieceSquare f prevFen =
                    (case ?pins of None \<Rightarrow> None | Some (Inl e) \<Rightarrow> Some (Inl e)
                     | Some (Inr tactics') \<Rightarrow>
                        Some (Inr (Some \<lparr>piece = pe, capturedPiece = cap, tactics = tactics',
                           attacks = atks, defends = defs,
                           type = (if fianchetto chess p pieceSquare then Fianchetto
                                   else if length (attackers pe) > 0 then Attacking
                                   else if stalemate chess then Stalemate else t1),
                           defense = ?dfn, hangingPieces = hang\<rparr>)))"
                  by (simp only: moveInfo_def Let_def c p m b s al at option.case sum.case prod.case)
                with pr show ?thesis by (cases pres) simp_all
              qed
            qed
          qed
        qed
      qed
    qed
  qed
qed

section \<open>The ray scan and the geometry of the ray\<close>

lemma take_leaves:
  "take n (leavesWhere chess (\<lambda>_. True) xs)
     = leavesWhere chess (\<lambda>_. True) (take n (filter (\<lambda>s. get chess s \<noteq> None) xs))"
proof (induction xs arbitrary: n)
  case Nil
  then show ?case by simp
next
  case (Cons x xs)
  show ?case
  proof (cases "get chess x")
    case None
    with Cons.IH [of n] show ?thesis by (simp add: leavesWhere_Cons)
  next
    case (Some q)
    show ?thesis
    proof (cases n)
      case 0
      then show ?thesis by simp
    next
      case (Suc m)
      with Some Cons.IH [of m] show ?thesis by (simp add: leavesWhere_Cons)
    qed
  qed
qed

lemma rayLoop_eq:
  assumes rt: "newChess g = Some chess'" "\<And>s. get chess' s = get chess s"
    and "\<exists>k. k0 \<le> k \<and> k < 10 \<and> \<not> onBoard (cx + int k * dx) (cy + int k * dy)"
    and "length acc < 2"
  shows "rayLoop newChess chess g dx dy (cx + int k0 * dx) (cy + int k0 * dy) acc
     = Some (Inr (take 2 (acc @ leavesWhere chess (\<lambda>_. True)
          (map (\<lambda>k. char_of (cx + int k * dx) # numStr (cy + int k * dy))
             (takeWhile (\<lambda>k. onBoard (cx + int k * dx) (cy + int k * dy)) [k0..<10])))))"
  using assms(3,4)
proof (induction "10 - k0" arbitrary: k0 acc)
  case 0
  then show ?case by auto
next
  case (Suc n)
  let ?x = "cx + int k0 * dx" and ?y = "cy + int k0 * dy"
  let ?sq = "\<lambda>k. char_of (cx + int k * dx) # numStr (cy + int k * dy)"
  let ?on = "\<lambda>k. onBoard (cx + int k * dx) (cy + int k * dy)"
  from Suc.hyps(2) have lt: "k0 < 10" and n: "n = 10 - Suc k0" by simp_all
  from lt have upt: "[k0..<10] = k0 # [Suc k0..<10]" by (simp add: upt_conv_Cons)
  show ?case
  proof (cases "?on k0")
    case False
    then have nb: "(97 \<le> ?x \<and> ?x \<le> 104 \<and> 1 \<le> ?y \<and> ?y \<le> 8) = False"
      by (simp add: onBoard_def)
    from False Suc.prems(2) show ?thesis
      by (subst rayLoop.simps) (simp only: nb if_False upt takeWhile.simps, simp)
  next
    case True
    then have inb: "(97 \<le> ?x \<and> ?x \<le> 104 \<and> 1 \<le> ?y \<and> ?y \<le> 8) = True"
      by (simp add: onBoard_def)
    from Suc.prems(1) True have ex: "\<exists>k. Suc k0 \<le> k \<and> k < 10 \<and> \<not> ?on k"
      by (metis Suc_leI le_neq_implies_less)
    have nx: "?x + dx = cx + int (Suc k0) * dx" "?y + dy = cy + int (Suc k0) * dy"
      by (simp_all add: algebra_simps)
    have tw: "takeWhile ?on [k0..<10] = k0 # takeWhile ?on [Suc k0..<10]"
      using True by (simp add: upt)
    note IH = Suc.hyps(1) [OF n ex]
    show ?thesis
    proof (cases "get chess (?sq k0)")
      case None
      with IH [OF Suc.prems(2)] show ?thesis
        by (subst rayLoop.simps) (simp only: inb if_True nx option.case tw, simp add: leavesWhere_Cons)
    next
      case (Some p)
      have b: "buildPieceInEffect newChess (?sq k0) g 0 = Inr (Some (leaf (?sq k0) p))"
        using build_depth0 [of newChess g chess' "?sq k0"] rt Some by (simp add: resolve_def leaf_def)
      show ?thesis
      proof (cases "length (acc @ [leaf (?sq k0) p]) = 2")
        case True
        then have "length acc = 1" by simp
        with Some True show ?thesis
          by (subst rayLoop.simps)
             (simp only: inb if_True option.case b sum.case tw, simp add: leavesWhere_Cons)
      next
        case False
        then have "length acc \<noteq> 1" by simp
        with Suc.prems(2) have "length acc = 0" by linarith
        then have l: "length (acc @ [leaf (?sq k0) p]) < 2" by simp
        from IH [OF l] Some False show ?thesis
          by (subst rayLoop.simps)
             (simp only: inb if_True if_False nx option.case b sum.case tw, simp add: leavesWhere_Cons)
      qed
    qed
  qed
qed

lemma getPiecesAlongRay_eq:
  assumes rt: "newChess g = Some chess'" "\<And>s. get chess' s = get chess s"
    and nz: "dx \<noteq> 0 \<or> dy \<noteq> 0"
  shows "getPiecesAlongRay newChess chess sq dx dy g
     = Some (Inr (leavesWhere chess (\<lambda>_. True) (firstTwo chess sq (dx, dy))))"
proof (cases "charCodeAt0 sq")
  case None
  then show ?thesis by (simp add: getPiecesAlongRay_def firstTwo_def raySquares_def)
next
  case cx: (Some cx)
  show ?thesis
  proof (cases "parseIntAt1 sq")
    case None
    with cx show ?thesis by (simp add: getPiecesAlongRay_def firstTwo_def raySquares_def)
  next
    case (Some cy)
    from off_board_within_9 [OF nz, of "cx + dx" "cy + dy"]
    have ex: "\<exists>k. 1 \<le> k \<and> k < 10 \<and> \<not> onBoard (cx + int k * dx) (cy + int k * dy)"
    proof
      assume "\<not> onBoard (cx + dx) (cy + dy)"
      then have "\<not> onBoard (cx + int 1 * dx) (cy + int 1 * dy)" by simp
      then show ?thesis by (intro exI [of _ 1]) simp
    next
      assume "\<not> onBoard (cx + dx + 8 * dx) (cy + dy + 8 * dy)"
      then have "\<not> onBoard (cx + int 9 * dx) (cy + int 9 * dy)" by (simp add: algebra_simps)
      then show ?thesis by (intro exI [of _ 9]) simp
    qed
    have "rayLoop newChess chess g dx dy (cx + int 1 * dx) (cy + int 1 * dy) []
       = Some (Inr (take 2 ([] @ leavesWhere chess (\<lambda>_. True)
          (map (\<lambda>k. char_of (cx + int k * dx) # numStr (cy + int k * dy))
             (takeWhile (\<lambda>k. onBoard (cx + int k * dx) (cy + int k * dy)) [1..<10])))))"
      by (rule rayLoop_eq [where newChess = newChess and g = g and chess' = chess' and chess = chess,
            OF rt ex]) simp
    with cx Some show ?thesis
      by (simp add: getPiecesAlongRay_def firstTwo_def raySquares_def take_leaves)
  qed
qed

text \<open>The tables of the code are the tables of the specification.\<close>

lemma PIECE_VALS_materialValue: "PIECE_VALS t = materialValue t"
  by (cases t) simp_all

lemma DIRECTIONS_relevant:
  "t \<in> {Bishop, Rook, Queen} \<Longrightarrow> DIRECTIONS t = relevantDirections t"
  by (auto simp: DIRECTIONS_def ALL_8_DIRECTIONS_def orthogonals_def diagonals_def)

lemma firstTwo_occupied: "s \<in> set (firstTwo chess sq d) \<Longrightarrow> \<exists>p. get chess s = Some p"
  by (auto simp: firstTwo_def dest: in_set_takeD)

lemma pinStep:
  assumes "\<And>s. s \<in> set ft \<Longrightarrow> \<exists>p. get chess s = Some p" and "length ft \<le> 2"
  shows "(case leavesWhere chess (\<lambda>_. True) ft of
            firstPiece # secondPiece # _ \<Rightarrow>
               (if color firstPiece \<noteq> Piece.color p \<and> color secondPiece \<noteq> Piece.color p
                then K (acc @
                        [\<lparr>tactic' = (if PIECE_VALS (name firstPiece) > PIECE_VALS (name secondPiece)
                                        \<and> dfn \<in> set [Defended, Overdefended]
                                     then Skewer else Pin),
                          targets = [firstPiece, secondPiece]\<rparr>])
                else K acc)
           | _ \<Rightarrow> K acc)
       = K (acc @ (case ft of
        [front, back] \<Rightarrow>
          (case (get chess front, get chess back) of
             (Some p1, Some p2) \<Rightarrow>
               if Piece.color p1 \<noteq> Piece.color p \<and> Piece.color p2 \<noteq> Piece.color p
               then [\<lparr>tactic' = (if materialValue (Piece.type p1) > materialValue (Piece.type p2)
                                     \<and> (dfn = Defended \<or> dfn = Overdefended)
                                  then Skewer else Pin),
                       targets = [leaf front p1, leaf back p2]\<rparr>]
               else []
           | _ \<Rightarrow> [])
      | _ \<Rightarrow> []))"
proof (cases ft)
  case Nil
  then show ?thesis by simp
next
  case c1: (Cons a as)
  from assms(1) [of a] c1 obtain pa where pa: "get chess a = Some pa" by auto
  show ?thesis
  proof (cases as)
    case Nil
    with c1 pa show ?thesis by (simp add: leavesWhere_Cons)
  next
    case c2: (Cons b bs)
    with c1 assms(2) have bs: "bs = []" by simp
    from assms(1) [of b] c1 c2 obtain pb where pb: "get chess b = Some pb" by auto
    from c1 c2 bs pa pb show ?thesis
      by (simp add: leavesWhere_Cons leaf_def PIECE_VALS_materialValue)
  qed
qed

lemma pinLoop_eq:
  assumes rt: "newChess (fen chess) = Some chess'" "\<And>s. get chess' s = get chess s"
    and "\<forall>d \<in> set dirs. fst d \<noteq> 0 \<or> snd d \<noteq> 0"
  shows "pinLoop newChess chess pieceSquare p dfn dirs acc
     = Some (Inr (acc @ concat (map (pinOrSkewer chess pieceSquare p dfn) dirs)))"
  using assms(3)
proof (induction dirs arbitrary: acc)
  case Nil
  then show ?case by simp
next
  case (Cons d dirs)
  obtain dx dy where d: "d = (dx, dy)" by (cases d)
  with Cons.prems have nz: "dx \<noteq> 0 \<or> dy \<noteq> 0" by simp
  from Cons.prems have rest: "\<forall>d \<in> set dirs. fst d \<noteq> 0 \<or> snd d \<noteq> 0" by simp
  note ray = getPiecesAlongRay_eq [where newChess = newChess and g = "fen chess"
      and chess' = chess' and chess = chess and sq = pieceSquare, OF rt nz]
  have len: "length (firstTwo chess pieceSquare (dx, dy)) \<le> 2" by (simp add: firstTwo_def)
  note step = pinStep [where ft = "firstTwo chess pieceSquare (dx, dy)" and chess = chess
      and p = p and K = "pinLoop newChess chess pieceSquare p dfn dirs" and acc = acc
      and dfn = dfn, OF firstTwo_occupied len, folded pinOrSkewer_def]
  have "pinLoop newChess chess pieceSquare p dfn ((dx, dy) # dirs) acc
      = (case leavesWhere chess (\<lambda>_. True) (firstTwo chess pieceSquare (dx, dy)) of
            firstPiece # secondPiece # _ \<Rightarrow>
               (if color firstPiece \<noteq> Piece.color p \<and> color secondPiece \<noteq> Piece.color p
                then pinLoop newChess chess pieceSquare p dfn dirs (acc @
                        [\<lparr>tactic' = (if PIECE_VALS (name firstPiece) > PIECE_VALS (name secondPiece)
                                        \<and> dfn \<in> set [Defended, Overdefended]
                                     then Skewer else Pin),
                          targets = [firstPiece, secondPiece]\<rparr>])
                else pinLoop newChess chess pieceSquare p dfn dirs acc)
           | _ \<Rightarrow> pinLoop newChess chess pieceSquare p dfn dirs acc)"
    by (simp only: pinLoop.simps ray option.case sum.case)
  also have "\<dots> = pinLoop newChess chess pieceSquare p dfn dirs
      (acc @ pinOrSkewer chess pieceSquare p dfn (dx, dy))"
    by (rule step)
  also have "\<dots> = Some (Inr ((acc @ pinOrSkewer chess pieceSquare p dfn (dx, dy))
      @ concat (map (pinOrSkewer chess pieceSquare p dfn) dirs)))"
    by (rule Cons.IH [OF rest])
  finally show ?case by (simp add: d)
qed

lemma eval_pin: "moveInfo engPin ''g4'' fenPin None = Some (Inr (Some analysisPin))"
  by (simp add: moveInfo_defs position_defs rayLoop.simps)

lemma eval_promo:
  "moveInfo engPromo ''a8'' fenAfterPromo (Some fenBeforePromo) = Some (Inr (Some analysisPromo))"
  by (simp add: moveInfo_defs position_defs)

lemma eval_skewer: "moveInfo engSkewer ''e1'' fenSkewer None = Some (Inr (Some analysisSkewer))"
  by (simp add: moveInfo_defs position_defs rayLoop.simps)

lemma eval_pawn: "moveInfo engPawn ''b7'' fenPawn None = Some (Inr (Some analysisPawn))"
  by (simp add: moveInfo_defs position_defs)

lemma eval_ep: "moveInfo engEP ''d6'' fenAfterEP (Some fenBeforeEP) = Some (Inr (Some analysisEP))"
  by (simp add: moveInfo_defs position_defs)

section \<open>The attacks list, the fork finding and the captured piece\<close>

text \<open>
  The attacks list has one entry for each legal move of the queried piece, on the position
  with the side to move set to the piece's colour, whose destination square holds a piece
  of the other colour: the depth-0 descriptor of that piece.
\<close>

lemma attacks_per_move:
  assumes "moveInfo newChess pieceSquare f prevFen = Some (Inr (Some r))"
    and "newChess f = Some chess"
    and "get chess pieceSquare = Some p"
  shows "\<exists>alt :: Chess. newChess (replaceTurn (fen chess) (Piece.color p)) = Some alt
     \<and> attacks r = leavesWhere chess (\<lambda>q. Piece.color q \<noteq> Piece.color p)
          (map to (movesOf alt pieceSquare))"
proof -
  from moveInfo_attacks [OF assms] obtain alt :: Chess where
      a: "newChess (replaceTurn (fen chess) (Piece.color p)) = Some alt"
      and l: "attackLoop newChess chess f p (movesOf alt pieceSquare) [] = Inr (attacks r)"
    by blast
  from l have "attacks r = leavesWhere chess (\<lambda>q. Piece.color q \<noteq> Piece.color p)
          (map to (movesOf alt pieceSquare))"
    by (simp add: attackLoop_eq [of newChess f chess, OF assms(2)])
  with a show ?thesis by blast
qed

text \<open>
  The tactics list holds one fork finding, on the whole attacks list, when that list has two
  or more entries, and none otherwise.
\<close>

lemma fork_follows_attacks:
  assumes "moveInfo newChess pieceSquare f prevFen = Some (Inr (Some r))"
  shows "filter (\<lambda>t. tactic' t = Fork) (tactics r) =
     (if 2 \<le> length (attacks r) then [\<lparr>tactic' = Fork, targets = attacks r\<rparr>] else [])"
proof -
  from tactics_eq [OF assms] obtain extra where
      e: "tactics r =
       (if length (attacks r) > 1 then [\<lparr>tactic' = Fork, targets = attacks r\<rparr>] else []) @ extra"
      "\<forall>t \<in> set extra. tactic' t \<noteq> Fork" by blast
  from e(2) have "filter (\<lambda>t. tactic' t = Fork) extra = []" by (simp add: filter_empty_conv)
  with e(1) show ?thesis by auto
qed

text \<open>
  When the destination square of the matched move is occupied on the previous position,
  as after every capture other than en passant, \<open>capturedPiece\<close> is the depth-0 descriptor
  of the piece on that square.
\<close>

lemma capture_on_destination:
  assumes "moveInfo newChess pieceSquare f (Some pf) = Some (Inr (Some r))"
    and "pf \<noteq> []"
    and "newChess pf = Some prevChess"
    and "matchedMove prevChess f = Some m"
    and "get prevChess (to m) = Some cap"
  shows "capturedPiece r = Some (PieceInEffect (to m) (Piece.type cap) (Piece.color cap) [] [])
     \<and> buildPieceInEffect newChess (to m) pf 0
         = Inr (Some (PieceInEffect (to m) (Piece.type cap) (Piece.color cap) [] []))"
proof -
  from moveInfo_loaded [OF assms(1)] obtain chess p where
      c: "newChess f = Some chess" and p: "get chess pieceSquare = Some p" by blast
  from moveInfo_match [OF assms(1) c p] obtain mo t1 where
      m: "matchMove newChess f (Some pf) = Inr (mo, t1, capturedPiece r)" by blast
  have b: "buildPieceInEffect newChess (to m) pf 0
      = Inr (Some (PieceInEffect (to m) (Piece.type cap) (Piece.color cap) [] []))"
    using build_depth0 [of newChess pf prevChess "to m"] assms(3,5) by (simp add: resolve_def)
  with m assms(2-5) show ?thesis by (simp add: matchMove_def matchedMove_def)
qed

lemma capture_on_destination_example:
  "moveInfo engFork ''a8'' fenTaken (Some fenForkW) = Some (Inr (Some analysisTaken))
   \<and> fenForkW \<noteq> []
   \<and> engFork fenForkW = Some posForkW
   \<and> matchedMove posForkW fenTaken = Some (mkMove ''a8'' ''c'' ''Nxa8'' (Some Rook) None)
   \<and> get posForkW ''a8'' = Some (mkPiece Black Rook)
   \<and> capturedPiece analysisTaken = Some (PieceInEffect ''a8'' Rook Black [] [])"
  using capture_on_destination [OF eval_taken, of posForkW
      "mkMove ''a8'' ''c'' ''Nxa8'' (Some Rook) None" "mkPiece Black Rook"]
  by (simp add: eval_taken) (simp_all add: moveInfo_defs position_defs)

section \<open>The square analysis\<close>

text \<open>
  \<open>getAnalysisAt\<close> returns on every object, with the analysis of the queried square on the
  current position and the position read from the history, and assigns to no field of
  the object.
\<close>

lemma getAnalysisAt_returns:
  "\<exists>res. getAnalysisAt newChess square this = Some (res, this)"
proof -
  let ?h = "gameHistory (super this)"
  let ?prev = "case (if 2 \<le> length ?h then Some (?h ! (length ?h - 2)) else None) of
                 None \<Rightarrow> None
               | Some m \<Rightarrow> if after m = [] then None else Some (after m)"
  from moveInfo_returns obtain res where
      "moveInfo newChess square (gameFen (super this)) ?prev = Some res" by blast
  then have "getAnalysisAt newChess square this = Some (res, this)"
    by (simp add: getAnalysisAt_def Let_def)
  then show ?thesis by blast
qed
section \<open>The claims\<close>

text \<open>
  C1 (as stated). The claim says that on a stalemate position the returned type is
  \<open>stalemate\<close> whenever the fianchetto refinement does not apply. Line 168 assigns
  \<open>attacking\<close> after line 158 assigned \<open>stalemate\<close>, with no guard: in the stalemate of
  king and pawn against king, the analysis of the pawn on a7, which the black king
  attacks, has type \<open>attacking\<close>.
\<close>

theorem stalemate_type_counterexample:
  "engStale fenStale = Some posStale
   \<and> stalemate posStale
   \<and> get posStale ''a7'' = Some (mkPiece White Pawn)
   \<and> map_option MoveEffect.type (returned (moveInfo engStale ''a7'' fenStale None)) = Some Attacking"
  by (simp add: moveInfo_defs position_defs)

text \<open>
  C1 (amended). On a stalemate position the returned type is \<open>fianchetto\<close> when the
  fianchetto refinement applies, otherwise \<open>attacking\<close> when the queried piece has at
  least one attacker, otherwise \<open>stalemate\<close>.
\<close>

theorem stalemate_type:
  assumes "moveInfo newChess pieceSquare f prevFen = Some (Inr (Some r))"
    and "newChess f = Some chess"
    and "get chess pieceSquare = Some p"
    and "stalemate chess"
  shows "MoveEffect.type r =
     (if fianchetto chess p pieceSquare then Fianchetto
      else if 1 \<le> length (attackers (piece r)) then Attacking
      else Stalemate)"
proof -
  from moveInfo_match [OF assms(1-3)] obtain t1 where
      "MoveEffect.type r =
              (if fianchetto chess p pieceSquare then Fianchetto
               else if length (attackers (piece r)) > 0 then Attacking
               else if stalemate chess then Stalemate else t1)" by blast
  with assms(4) show ?thesis by (auto simp: Suc_le_eq)
qed

theorem stalemate_type_witness:
  "moveInfo engStale ''b6'' fenStale None = Some (Inr (Some analysisStale))
   \<and> engStale fenStale = Some posStale
   \<and> get posStale ''b6'' = Some (mkPiece White King)
   \<and> stalemate posStale
   \<and> MoveEffect.type analysisStale = Stalemate"
  using stalemate_type [OF eval_stale, of posStale "mkPiece White King"]
  by (simp add: eval_stale) (simp_all add: position_defs stalemate_def)

text \<open>
  C2. In the result of a query, for every occupied square of the board scan other than the
  queried square, the depth-1 descriptor of the piece on it is listed in \<open>hangingPieces\<close>
  under the piece's colour exactly when it has at least one attacker and no defender, and
  is never listed under the other colour; and every entry of \<open>hangingPieces\<close> is the
  depth-1 descriptor of an occupied board square other than the queried one, filed under
  the colour of its piece.
\<close>

theorem hanging_census:
  assumes "moveInfo newChess pieceSquare f prevFen = Some (Inr (Some r))"
    and "newChess f = Some chess"
  shows "(\<forall>i < 64. \<forall>p eff.
            squareOfIndex i \<noteq> pieceSquare \<longrightarrow> get chess (squareOfIndex i) = Some p \<longrightarrow>
            buildPieceInEffect newChess (squareOfIndex i) f 1 = Inr (Some eff) \<longrightarrow>
              (eff \<in> set (hangingPieces r (Piece.color p))
                 \<longleftrightarrow> 1 \<le> length (attackers eff) \<and> length (defenders eff) = 0)
              \<and> (\<forall>c. c \<noteq> Piece.color p \<longrightarrow> eff \<notin> set (hangingPieces r c)))
       \<and> (\<forall>c. \<forall>e \<in> set (hangingPieces r c).
            (\<exists>i < 64. at e = squareOfIndex i) \<and> at e \<noteq> pieceSquare
            \<and> (\<exists>p. get chess (at e) = Some p \<and> Piece.color p = c)
            \<and> buildPieceInEffect newChess (at e) f 1 = Inr (Some e))"
proof (intro conjI allI impI ballI)
  fix i p eff
  assume i: "i < 64" "squareOfIndex i \<noteq> pieceSquare" "get chess (squareOfIndex i) = Some p"
    "buildPieceInEffect newChess (squareOfIndex i) f 1 = Inr (Some eff)"
  note h = hanging_iff [OF assms i]
  show "eff \<in> set (hangingPieces r (Piece.color p))
      \<longleftrightarrow> 1 \<le> length (attackers eff) \<and> length (defenders eff) = 0"
    unfolding h by (auto simp: Suc_le_eq)
  fix c assume "c \<noteq> Piece.color p"
  then show "eff \<notin> set (hangingPieces r c)" unfolding h by simp
next
  fix c e
  assume e: "e \<in> set (hangingPieces r c)"
  note h = hanging_entry [OF assms e]
  show "\<exists>i < 64. at e = squareOfIndex i" by (rule h(1))
  show "at e \<noteq> pieceSquare" by (rule h(2))
  show "\<exists>p. get chess (at e) = Some p \<and> Piece.color p = c" by (rule h(3))
  show "buildPieceInEffect newChess (at e) f 1 = Inr (Some e)" by (rule h(4))
qed

theorem hanging_census_witness:
  "moveInfo engFork ''c7'' fenFork None = Some (Inr (Some analysisFork))
   \<and> engFork fenFork = Some posFork
   \<and> squareOfIndex 44 = ''e6''
   \<and> get posFork ''e6'' = Some (mkPiece Black Bishop)
   \<and> buildPieceInEffect engFork ''e6'' fenFork 1 =
       Inr (Some (PieceInEffect ''e6'' Bishop Black [PieceInEffect ''c7'' Knight White [] []] []))
   \<and> PieceInEffect ''e6'' Bishop Black [PieceInEffect ''c7'' Knight White [] []] []
       \<in> set (hangingPieces analysisFork Black)
   \<and> hangingPieces analysisFork White = []"
  using hanging_census [OF eval_fork, of posFork]
  by (simp add: eval_fork) (simp_all add: moveInfo_defs position_defs)

text \<open>
  C3. For a queried bishop, rook or queen, the findings of the tactics list other than the
  fork are, direction by direction over the directions of its kind (the four diagonals
  for a bishop, the four orthogonals for a rook, all eight for a queen), the pin-or-skewer
  findings of the specification: at most one per direction; one exactly when the first
  two occupied squares of the ray both hold pieces of the side opposite to the queried
  piece; its targets the front piece, then the back piece; a skewer exactly when the
  material value of the front piece (pawn 1, knight 3, bishop 3, rook 5, queen 9, king
  100) is strictly greater than that of the back piece and the defense tag of the queried
  piece is \<open>defended\<close> or \<open>overdefended\<close>, a pin otherwise. The ray scan reloads the
  position from \<open>chess.fen()\<close> (line 267): the hypothesis on \<open>chess'\<close> is the contract
  of the rules engine that the position string it gives loads back to the same pieces.
\<close>

theorem pin_skewer_findings:
  assumes "moveInfo newChess pieceSquare f prevFen = Some (Inr (Some r))"
    and "newChess f = Some chess"
    and "get chess pieceSquare = Some p"
    and "Piece.type p \<in> {Bishop, Rook, Queen}"
    and "newChess (fen chess) = Some chess'"
    and "\<forall>s. get chess' s = get chess s"
  shows "filter (\<lambda>t. tactic' t \<noteq> Fork) (tactics r)
       = concat (map (pinOrSkewer chess pieceSquare p (defense r))
           (relevantDirections (Piece.type p)))
     \<and> (\<forall>d \<in> set (relevantDirections (Piece.type p)).
           length (pinOrSkewer chess pieceSquare p (defense r) d) \<le> 1)"
proof
  let ?t1 = "if length (attacks r) > 1 then [\<lparr>tactic' = Fork, targets = attacks r\<rparr>] else []"
  let ?pins = "concat (map (pinOrSkewer chess pieceSquare p (defense r))
      (relevantDirections (Piece.type p)))"
  from assms(4) have bq: "Piece.type p \<in> set [Bishop, Rook, Queen]" by simp
  note dirs = DIRECTIONS_relevant [OF assms(4)]
  from moveInfo_tactics [OF assms(1-3)] bq
  have "pinLoop newChess chess pieceSquare p (defense r) (DIRECTIONS (Piece.type p)) ?t1
      = Some (Inr (tactics r))"
    by (simp only: if_True)
  moreover from assms(6) have "\<And>s. get chess' s = get chess s" by simp
  note pinLoop_eq [where newChess = newChess and chess = chess and chess' = chess'
      and pieceSquare = pieceSquare and p = p and dfn = "defense r" and acc = ?t1,
      OF assms(5) this DIRECTIONS_nonzero, of "Piece.type p"]
  ultimately have t: "tactics r = ?t1 @ ?pins" by (simp add: dirs)
  have nf: "\<forall>t \<in> set ?pins. tactic' t \<noteq> Fork"
    by (auto simp: pinOrSkewer_def split: list.splits option.splits if_splits)
  then have "filter (\<lambda>t. tactic' t \<noteq> Fork) ?pins = ?pins" by (simp add: filter_id_conv)
  with t show "filter (\<lambda>t. tactic' t \<noteq> Fork) (tactics r) = ?pins" by simp
  show "\<forall>d \<in> set (relevantDirections (Piece.type p)).
           length (pinOrSkewer chess pieceSquare p (defense r) d) \<le> 1"
    by (auto simp: pinOrSkewer_def split: list.splits option.splits)
qed

theorem pin_skewer_findings_witness:
  "moveInfo engPin ''g4'' fenPin None = Some (Inr (Some analysisPin))
   \<and> engPin fenPin = Some posPin
   \<and> get posPin ''g4'' = Some (mkPiece Black Bishop)
   \<and> engPin (fen posPin) = Some posPin
   \<and> firstTwo posPin ''g4'' (- 1, - 1) = [''f3'', ''d1'']
   \<and> defense analysisPin = Overdefended
   \<and> concat (map (pinOrSkewer posPin ''g4'' (mkPiece Black Bishop) Overdefended)
         [(1, 1), (1, - 1), (- 1, 1), (- 1, - 1)])
       = [\<lparr>tactic' = Pin,
            targets = [PieceInEffect ''f3'' Knight White [] [], PieceInEffect ''d1'' Queen White [] []]\<rparr>]
   \<and> filter (\<lambda>t. tactic' t \<noteq> Fork) (tactics analysisPin)
       = [\<lparr>tactic' = Pin,
            targets = [PieceInEffect ''f3'' Knight White [] [], PieceInEffect ''d1'' Queen White [] []]\<rparr>]
   \<and> moveInfo engSkewer ''e1'' fenSkewer None = Some (Inr (Some analysisSkewer))
   \<and> engSkewer fenSkewer = Some posSkewer
   \<and> get posSkewer ''e1'' = Some (mkPiece White Rook)
   \<and> engSkewer (fen posSkewer) = Some posSkewer
   \<and> firstTwo posSkewer ''e1'' (0, 1) = [''e5'', ''e8'']
   \<and> defense analysisSkewer = Defended
   \<and> concat (map (pinOrSkewer posSkewer ''e1'' (mkPiece White Rook) Defended)
         [(0, 1), (0, - 1), (1, 0), (- 1, 0)])
       = [\<lparr>tactic' = Skewer,
            targets = [PieceInEffect ''e5'' Queen Black [] [], PieceInEffect ''e8'' Rook Black [] []]\<rparr>]
   \<and> filter (\<lambda>t. tactic' t \<noteq> Fork) (tactics analysisSkewer)
       = [\<lparr>tactic' = Skewer,
            targets = [PieceInEffect ''e5'' Queen Black [] [], PieceInEffect ''e8'' Rook Black [] []]\<rparr>]"
proof -
  have h: "engPin fenPin = Some posPin" "get posPin ''g4'' = Some (mkPiece Black Bishop)"
      "engPin (fen posPin) = Some posPin"
    by (simp_all add: position_defs)
  have t: "Piece.type (mkPiece Black Bishop) \<in> {Bishop, Rook, Queen}"
    by (simp add: mkPiece_def)
  have s: "\<forall>s. get posPin s = get posPin s" by simp
  have ft: "firstTwo posPin ''g4'' (- 1, - 1) = [''f3'', ''d1'']"
    by (simp add: firstTwo_def raySquares_def onBoard_def upt_rec moveInfo_defs position_defs)
  have dfn: "defense analysisPin = Overdefended" by (simp add: analysisPin_def)
  have tac: "filter (\<lambda>t. tactic' t \<noteq> Fork) (tactics analysisPin)
       = [\<lparr>tactic' = Pin,
            targets = [PieceInEffect ''f3'' Knight White [] [], PieceInEffect ''d1'' Queen White [] []]\<rparr>]"
    by (simp add: analysisPin_def)
  have rd: "relevantDirections (Piece.type (mkPiece Black Bishop))
      = [(1, 1), (1, - 1), (- 1, 1), (- 1, - 1)]"
    by (simp add: mkPiece_def diagonals_def)
  from pin_skewer_findings [OF eval_pin h(1) h(2) t h(3) s]
  have "filter (\<lambda>t. tactic' t \<noteq> Fork) (tactics analysisPin)
      = concat (map (pinOrSkewer posPin ''g4'' (mkPiece Black Bishop) (defense analysisPin))
          (relevantDirections (Piece.type (mkPiece Black Bishop))))"
    by (rule conjunct1)
  then have pin: "concat (map (pinOrSkewer posPin ''g4'' (mkPiece Black Bishop) Overdefended)
         [(1, 1), (1, - 1), (- 1, 1), (- 1, - 1)])
       = [\<lparr>tactic' = Pin,
            targets = [PieceInEffect ''f3'' Knight White [] [], PieceInEffect ''d1'' Queen White [] []]\<rparr>]"
    unfolding rd dfn tac by (rule sym)
  have h': "engSkewer fenSkewer = Some posSkewer" "get posSkewer ''e1'' = Some (mkPiece White Rook)"
      "engSkewer (fen posSkewer) = Some posSkewer"
    by (simp_all add: position_defs)
  have t': "Piece.type (mkPiece White Rook) \<in> {Bishop, Rook, Queen}"
    by (simp add: mkPiece_def)
  have s': "\<forall>s. get posSkewer s = get posSkewer s" by simp
  have ft': "firstTwo posSkewer ''e1'' (0, 1) = [''e5'', ''e8'']"
    by (simp add: firstTwo_def raySquares_def onBoard_def upt_rec moveInfo_defs position_defs)
  have dfn': "defense analysisSkewer = Defended" by (simp add: analysisSkewer_def)
  have tac': "filter (\<lambda>t. tactic' t \<noteq> Fork) (tactics analysisSkewer)
       = [\<lparr>tactic' = Skewer,
            targets = [PieceInEffect ''e5'' Queen Black [] [], PieceInEffect ''e8'' Rook Black [] []]\<rparr>]"
    by (simp add: analysisSkewer_def)
  have rd': "relevantDirections (Piece.type (mkPiece White Rook))
      = [(0, 1), (0, - 1), (1, 0), (- 1, 0)]"
    by (simp add: mkPiece_def orthogonals_def)
  from pin_skewer_findings [OF eval_skewer h'(1) h'(2) t' h'(3) s']
  have "filter (\<lambda>t. tactic' t \<noteq> Fork) (tactics analysisSkewer)
      = concat (map (pinOrSkewer posSkewer ''e1'' (mkPiece White Rook) (defense analysisSkewer))
          (relevantDirections (Piece.type (mkPiece White Rook))))"
    by (rule conjunct1)
  then have skewer: "concat (map (pinOrSkewer posSkewer ''e1'' (mkPiece White Rook) Defended)
         [(0, 1), (0, - 1), (1, 0), (- 1, 0)])
       = [\<lparr>tactic' = Skewer,
            targets = [PieceInEffect ''e5'' Queen Black [] [], PieceInEffect ''e8'' Rook Black [] []]\<rparr>]"
    unfolding rd' dfn' tac' by (rule sym)
  from eval_pin h ft dfn pin tac eval_skewer h' ft' dfn' skewer tac' show ?thesis
    by (intro conjI) assumption+
qed

text \<open>
  C4. The claim says that the result holds a fork finding exactly when the queried piece
  attacks two or more enemy pieces. Lines 232-242 push one entry for each legal move whose
  destination holds an enemy piece, and a capture with promotion is four legal moves to
  one square: the pawn on b7 attacks one piece, the rook on a8, the attacks list holds
  that rook four times, and the tactics list holds a fork finding on those four entries.
\<close>

theorem fork_on_one_piece:
  "moveInfo engPawn ''b7'' fenPawn None = Some (Inr (Some analysisPawn))
   \<and> map to (movesOf posPawn ''b7'')
       = [''b8'', ''b8'', ''b8'', ''b8'', ''a8'', ''a8'', ''a8'', ''a8'']
   \<and> attacks analysisPawn = [rookOnA8, rookOnA8, rookOnA8, rookOnA8]
   \<and> remdups (attacks analysisPawn) = [PieceInEffect ''a8'' Rook Black [] []]
   \<and> tactics analysisPawn
       = [\<lparr>tactic' = Fork, targets = [rookOnA8, rookOnA8, rookOnA8, rookOnA8]\<rparr>]"
  by (simp add: eval_pawn) (simp add: position_defs)

text \<open>
  C5. For an occupied square \<open>s\<close> of a loaded position, the depth-1 resolution returns a
  descriptor of the occupant whose defenders are the attacking squares holding a piece of
  the occupant's side and whose attackers are the remaining attacking squares, both in the
  order of \<open>attackersOf s White @ attackersOf s Black\<close>: every attacking square gives one
  entry, in exactly one of the two lists, describing the piece on it; the lists are
  disjoint and their lengths add up to the number of attacking squares. The hypothesis on
  the attacking squares is the contract of the rules engine: the squares it reports as
  attackers are occupied.
\<close>

theorem resolve_partition:
  assumes "newChess f = Some chess"
    and "get chess s = Some occ"
    and "\<forall>x \<in> set (attackersOf chess s White @ attackersOf chess s Black). get chess x \<noteq> None"
  shows "\<exists>d. buildPieceInEffect newChess s f 1 = Inr (Some d)
      \<and> at d = s \<and> name d = Piece.type occ \<and> color d = Piece.color occ
      \<and> map at (defenders d) =
          filter (\<lambda>x. map_option Piece.color (get chess x) = Some (Piece.color occ))
            (attackersOf chess s White @ attackersOf chess s Black)
      \<and> map at (attackers d) =
          filter (\<lambda>x. map_option Piece.color (get chess x) \<noteq> Some (Piece.color occ))
            (attackersOf chess s White @ attackersOf chess s Black)
      \<and> (\<forall>e \<in> set (attackers d @ defenders d).
            \<exists>q. get chess (at e) = Some q \<and> Piece.color q = color e \<and> Piece.type q = name e)
      \<and> set (attackers d) \<inter> set (defenders d) = {}
      \<and> length (attackers d) + length (defenders d)
          = length (attackersOf chess s White @ attackersOf chess s Black)"
proof -
  let ?froms = "attackersOf chess s White @ attackersOf chess s Black"
  let ?as = "leavesWhere chess (\<lambda>q. Piece.color q \<noteq> Piece.color occ) ?froms"
  let ?ds = "leavesWhere chess (\<lambda>q. Piece.color q = Piece.color occ) ?froms"
  let ?d = "PieceInEffect s (Piece.type occ) (Piece.color occ) ?as ?ds"
  have b: "buildPieceInEffect newChess s f 1 = Inr (Some ?d)"
    using build_resolve [of newChess f chess s 1] assms(1,2) by (simp add: resolve_def)
  have occ: "\<And>x. x \<in> set ?froms \<Longrightarrow> \<exists>q. get chess x = Some q"
    using assms(3) by blast
  have da: "map at ?ds = filter (\<lambda>x. map_option Piece.color (get chess x) = Some (Piece.color occ)) ?froms"
    unfolding leavesWhere_at by (rule filter_cong) (auto split: option.splits)
  have aa: "map at ?as = filter (\<lambda>x. map_option Piece.color (get chess x) \<noteq> Some (Piece.color occ)) ?froms"
    unfolding leavesWhere_at
  proof (rule filter_cong [OF refl])
    fix x assume "x \<in> set ?froms"
    then obtain q where "get chess x = Some q" using occ by blast
    then show "(case get chess x of None \<Rightarrow> False | Some q \<Rightarrow> Piece.color q \<noteq> Piece.color occ)
        = (map_option Piece.color (get chess x) \<noteq> Some (Piece.color occ))"
      by simp
  qed
  have ent: "\<forall>e \<in> set (?as @ ?ds).
      \<exists>q. get chess (at e) = Some q \<and> Piece.color q = color e \<and> Piece.type q = name e"
    using leavesWhere_set by fastforce
  have dis: "set ?as \<inter> set ?ds = {}"
  proof -
    have "\<And>e. e \<in> set ?as \<Longrightarrow> color e \<noteq> Piece.color occ"
      using leavesWhere_set by fastforce
    moreover have "\<And>e. e \<in> set ?ds \<Longrightarrow> color e = Piece.color occ"
      using leavesWhere_set by fastforce
    ultimately show ?thesis by blast
  qed
  have "length (map at ?as) + length (map at ?ds) = length ?froms"
    unfolding aa da by (simp only: sum_length_filter_compl add.commute)
  then have len: "length ?as + length ?ds = length ?froms" by simp
  show ?thesis
    using b da aa ent dis len by (intro exI [of _ ?d]) simp
qed


theorem resolve_partition_witness:
  "engStale fenStale = Some posStale
   \<and> get posStale ''a7'' = Some (mkPiece White Pawn)
   \<and> get posStale ''b6'' \<noteq> None \<and> get posStale ''a8'' \<noteq> None
   \<and> attackersOf posStale ''a7'' White @ attackersOf posStale ''a7'' Black = [''b6'', ''a8'']
   \<and> buildPieceInEffect engStale ''a7'' fenStale 1 =
       Inr (Some (PieceInEffect ''a7'' Pawn White
                    [PieceInEffect ''a8'' King Black [] []]
                    [PieceInEffect ''b6'' King White [] []]))"
  using resolve_partition [of engStale fenStale posStale "''a7''" "mkPiece White Pawn"]
  by (simp add: position_defs buildPieceInEffect.simps)

text \<open>
  C6. In every result, each descriptor at the top level of a field (piece, capturedPiece,
  attacks, defends, the targets of the tactics, hangingPieces of either colour) is
  depth-bounded: the descriptors nested in its attackers and defenders have empty lists.
\<close>

theorem depth_invariant:
  assumes "moveInfo newChess pieceSquare f prevFen = Some (Inr (Some r))"
  shows "\<forall>d \<in> set (descriptorsOf r). depthBounded d"
proof -
  let ?t1 = "if length (attacks r) > 1 then [\<lparr>tactic' = Fork, targets = attacks r\<rparr>] else []"
  from moveInfo_loaded [OF assms] obtain chess p where
      c: "newChess f = Some chess" and p: "get chess pieceSquare = Some p" by blast
  from moveInfo_match [OF assms c p] obtain mo t1 where
      m: "matchMove newChess f prevFen = Inr (mo, t1, capturedPiece r)" by blast
  note b = moveInfo_piece [OF assms c p]
  from moveInfo_attacks [OF assms c p] obtain alt :: Chess where
      a: "attackLoop newChess chess f p (movesOf alt pieceSquare) [] = Inr (attacks r)" by blast
  note t = moveInfo_tactics [OF assms c p]
  have piece: "depthBounded (piece r)" using build_bounded [OF b] .
  have cap: "\<forall>d \<in> set (case capturedPiece r of None \<Rightarrow> [] | Some c \<Rightarrow> [c]). depthBounded d"
  proof (cases "capturedPiece r")
    case None
    then show ?thesis by simp
  next
    case (Some c)
    with m matchMove_flat [of newChess f prevFen mo t1 c] show ?thesis
      by (simp add: depthBounded_flat)
  qed
  from a attackLoop_eq [of newChess f chess p "movesOf alt pieceSquare" "[]"] c
  have "attacks r = leavesWhere chess (\<lambda>q. Piece.color q \<noteq> Piece.color p)
      (map to (movesOf alt pieceSquare))" by simp
  then have atk_flat: "\<forall>e \<in> set (attacks r). attackers e = [] \<and> defenders e = []"
    using leavesWhere_set [of _ chess "\<lambda>q. Piece.color q \<noteq> Piece.color p"
        "map to (movesOf alt pieceSquare)"] by auto
  then have atk: "\<forall>d \<in> set (attacks r). depthBounded d" by (simp add: depthBounded_flat)
  have scanned: "\<forall>d \<in> set (scanned chess pieceSquare 0). depthBounded d"
  proof
    fix d assume "d \<in> set (scanned chess pieceSquare 0)"
    then obtain j where "resolve chess (squareOfIndex j) 1 = Some d"
      unfolding scanned_iff by blast
    then show "depthBounded d" by (rule resolve_bounded)
  qed
  have dfs: "\<forall>d \<in> set (defends r). depthBounded d"
    using scanned by (simp add: hanging_eq(2) [OF assms c])
  have hng: "\<forall>d \<in> set (hangingPieces r col). depthBounded d" for col
    using scanned by (simp add: hanging_eq(1) [OF assms c])
  have fork_flat: "\<forall>t \<in> set ?t1. \<forall>e \<in> set (targets t). attackers e = [] \<and> defenders e = []"
    using atk_flat by simp
  have "\<forall>t \<in> set (tactics r). \<forall>e \<in> set (targets t). attackers e = [] \<and> defenders e = []"
  proof (cases "Piece.type p \<in> set [Bishop, Rook, Queen]")
    case True
    with t have "pinLoop newChess chess pieceSquare p (defense r) (DIRECTIONS (Piece.type p)) ?t1
        = Some (Inr (tactics r))"
      by (simp only: if_True)
    from pinLoop_flat [OF this fork_flat] show ?thesis .
  next
    case False
    with t have "tactics r = ?t1" by (simp only: if_False) simp
    with fork_flat show ?thesis by simp
  qed
  then have tac: "\<forall>d \<in> set (concat (map targets (tactics r))). depthBounded d"
    by (auto simp: depthBounded_flat)
  show ?thesis
    unfolding descriptorsOf_def using piece cap atk dfs tac hng [of White] hng [of Black]
    by (simp only: set_simps set_append ball_Un ball_simps)
qed

theorem depth_invariant_witness:
  "moveInfo engFork ''c7'' fenFork None = Some (Inr (Some analysisFork))
   \<and> list_all depthBounded (descriptorsOf analysisFork)"
  using depth_invariant [OF eval_fork]
  by (simp add: eval_fork list_all_iff)

text \<open>
  C7. The claim says that whenever the matched move captured a piece, \<open>capturedPiece\<close> is
  present. Line 146 looks for the captured piece on the destination square of the previous
  position: after an en-passant capture that square was empty, and the result has no
  \<open>capturedPiece\<close>, although the matched move records the captured pawn and the type is
  \<open>capture\<close>; \<^verbatim>\<open>moveAndAnalyze\<close> then leaves the ledger as it was, with eight black
  pawns.
\<close>

theorem en_passant_capture_missed:
  "engEP fenBeforeEP = Some posBeforeEP
   \<and> matchedMove posBeforeEP fenAfterEP = Some moveEP
   \<and> captured moveEP = Some Pawn
   \<and> get posBeforeEP (to moveEP) = None
   \<and> moveInfo engEP ''d6'' fenAfterEP (Some fenBeforeEP) = Some (Inr (Some analysisEP))
   \<and> MoveEffect.type analysisEP = Capture
   \<and> capturedPiece analysisEP = None
   \<and> moveAndAnalyze engEP superEnPassant () gameBeforeEP
       = Some (Inr (Some analysisEP), \<lparr>super = gameAfterEP, material = initialMaterial\<rparr>)
   \<and> material gameBeforeEP Black ''p'' = Some (Num 8)
   \<and> initialMaterial Black ''p'' = Some (Num 8)"
proof -
  have "moveInfo engEP (to moveEP) (after moveEP) (Some (before moveEP))
      = Some (Inr (Some analysisEP))"
    using eval_ep by (simp add: moveEP_def mkMove_def)
  then have "moveAndAnalyze engEP superEnPassant () gameBeforeEP
       = Some (Inr (Some analysisEP), \<lparr>super = gameAfterEP, material = initialMaterial\<rparr>)"
    by (simp add: moveAndAnalyze_def superEnPassant_def gameBeforeEP_def analysisEP_def)
  moreover have "engEP fenBeforeEP = Some posBeforeEP
   \<and> matchedMove posBeforeEP fenAfterEP = Some moveEP
   \<and> captured moveEP = Some Pawn
   \<and> get posBeforeEP (to moveEP) = None"
    by (simp add: position_defs)
  moreover have "MoveEffect.type analysisEP = Capture \<and> capturedPiece analysisEP = None
   \<and> material gameBeforeEP Black ''p'' = Some (Num 8)
   \<and> initialMaterial Black ''p'' = Some (Num 8)"
    by (simp add: analysisEP_def gameBeforeEP_def initialMaterial_def initialRecord_def)
  ultimately show ?thesis using eval_ep by simp
qed

text \<open>
  C8. The claim says that a promotion increments the ledger entry of the promoted-to kind
  for the side that moved. Line 331 tests the type of the analysis, which later
  assignments of moveInfo overwrite: White promotes on a8 to a knight that the rook on h8
  attacks, the type of the analysis is \<open>attacking\<close>, and the ledger is left as it was,
  with two white knights.
\<close>

theorem promotion_not_counted:
  "moveAndAnalyze engPromo superPromote () gameBefore
     = Some (Inr (Some analysisPromo), \<lparr>super = gameAfter, material = initialMaterial\<rparr>)
   \<and> promotion movePromo = Some Knight
   \<and> MoveEffect.type analysisPromo = Attacking
   \<and> material gameBefore White ''n'' = Some (Num 2)
   \<and> initialMaterial White ''n'' = Some (Num 2)"
proof -
  have "moveInfo engPromo (to movePromo) (after movePromo) (Some (before movePromo))
      = Some (Inr (Some analysisPromo))"
    using eval_promo by (simp add: movePromo_def mkMove_def)
  then show ?thesis
    by (simp add: moveAndAnalyze_def superPromote_def gameBefore_def analysisPromo_def)
       (simp add: movePromo_def mkMove_def initialMaterial_def initialRecord_def)
qed

text \<open>
  C10 (as stated). The claim says that in every analysed position a king with at least one
  attacker and no defender is listed in \<open>hangingPieces\<close>. Line 209 skips the queried
  square: when the white king in check from the rook on e8 is itself the queried piece,
  \<open>hangingPieces\<close> of White is empty.
\<close>

theorem king_census_counterexample:
  "engCheck fenCheck = Some posCheck
   \<and> get posCheck ''e1'' = Some (mkPiece White King)
   \<and> buildPieceInEffect engCheck ''e1'' fenCheck 1 =
       Inr (Some (PieceInEffect ''e1'' King White [PieceInEffect ''e8'' Rook Black [] []] []))
   \<and> hangingOf (moveInfo engCheck ''e1'' fenCheck None) White = Some []"
  by (simp add: moveInfo_defs position_defs)

text \<open>
  C10 (amended). In the result of a query, a king on a board square other than the queried
  square whose depth-1 descriptor has at least one attacker and no defender is listed in
  \<open>hangingPieces\<close> under its colour; and no entry of \<open>defends\<close> is a king.
\<close>

theorem king_census:
  assumes "moveInfo newChess pieceSquare f prevFen = Some (Inr (Some r))"
    and "newChess f = Some chess"
  shows "(\<forall>i < 64. \<forall>p eff.
            squareOfIndex i \<noteq> pieceSquare \<longrightarrow> get chess (squareOfIndex i) = Some p \<longrightarrow>
            Piece.type p = King \<longrightarrow>
            buildPieceInEffect newChess (squareOfIndex i) f 1 = Inr (Some eff) \<longrightarrow>
            1 \<le> length (attackers eff) \<longrightarrow> length (defenders eff) = 0 \<longrightarrow>
              eff \<in> set (hangingPieces r (Piece.color p)))
       \<and> (\<forall>e \<in> set (defends r). name e \<noteq> King)"
proof (intro conjI allI impI ballI)
  fix i p eff
  assume i: "i < 64" "squareOfIndex i \<noteq> pieceSquare" "get chess (squareOfIndex i) = Some p"
    "buildPieceInEffect newChess (squareOfIndex i) f 1 = Inr (Some eff)"
    and a: "1 \<le> length (attackers eff)" "length (defenders eff) = 0"
  from a show "eff \<in> set (hangingPieces r (Piece.color p))"
    unfolding hanging_iff [OF assms i] by auto
next
  fix e assume "e \<in> set (defends r)"
  then show "name e \<noteq> King" by (simp add: hanging_eq(2) [OF assms])
qed

theorem king_census_witness:
  "moveInfo engCheck ''h8'' fenCheck None = Some (Inr (Some analysisCheck))
   \<and> engCheck fenCheck = Some posCheck
   \<and> squareOfIndex 4 = ''e1''
   \<and> get posCheck ''e1'' = Some (mkPiece White King)
   \<and> buildPieceInEffect engCheck ''e1'' fenCheck 1 =
       Inr (Some (PieceInEffect ''e1'' King White [PieceInEffect ''e8'' Rook Black [] []] []))
   \<and> PieceInEffect ''e1'' King White [PieceInEffect ''e8'' Rook Black [] []] []
       \<in> set (hangingPieces analysisCheck White)
   \<and> defends analysisCheck = []"
  using king_census [OF eval_check, of posCheck]
  by (simp add: eval_check) (simp_all add: moveInfo_defs position_defs)

end
